theory Spec2Isabelle
  imports Main "HOL-Library.Sublist"
begin

section \<open>Data model (types.ts, error.ts)\<close>

text \<open>
  Modelled from the spec: the type declarations of \<^verbatim>\<open>types.ts\<close> (operations, indexed
  operations, documents), which are not among the sources; the fields are those the
  specification's data model lists and the validator reads.

  The three operation variants of \<^verbatim>\<open>t.CompatibleOpOrTombstone\<close> are discriminated by their
  \<^verbatim>\<open>type\<close> field. The type parameter is the type of the \<^verbatim>\<open>sig\<close> field: a signed
  operation carries a string, and the object \<^verbatim>\<open>opData\<close> left by
  \<^verbatim>\<open>const { sig, ...opData } = op\<close> carries nothing there (\<open>unit\<close>).
  JavaScript objects with string keys (\<^verbatim>\<open>verificationMethods\<close>, \<^verbatim>\<open>services\<close>) are
  association lists. \<^verbatim>\<open>prev\<close> is \<^verbatim>\<open>string | null\<close> in every variant (the declared
  types narrow it to \<^verbatim>\<open>null\<close> for a v1 create and to a string for a tombstone); \<open>None\<close>
  is \<^verbatim>\<open>null\<close>.
\<close>

record service_entry =
  service_type :: string
  endpoint :: string

datatype 'sig op =
    Plc_operation
      (verificationMethods: "(string \<times> string) list")
      (rotationKeys: "string list")
      (alsoKnownAs: "string list")
      (services: "(string \<times> service_entry) list")
      (prev: "string option")
      (sig: 'sig)
  | Create
      (signingKey: string)
      (recoveryKey: string)
      (handle: string)
      (service: string)
      (prev: "string option")
      (sig: 'sig)
  | Plc_tombstone
      (prev: "string option")
      (sig: 'sig)

type_synonym operation = "string op"
type_synonym unsigned_operation = "unit op"

text \<open>\<^verbatim>\<open>const { sig, ...opData } = op\<close>: the operation without its signature.\<close>

definition opData :: "operation \<Rightarrow> unsigned_operation" where
  "opData x = map_op (\<lambda>_. ()) x"

text \<open>\<^verbatim>\<open>op.type === "plc_tombstone"\<close>\<close>

fun is_plc_tombstone :: "'sig op \<Rightarrow> bool" where
  "is_plc_tombstone (Plc_tombstone _ _) = True"
| "is_plc_tombstone _ = False"

text \<open>\<^verbatim>\<open>t.IndexedOperation\<close>: the operation, its CID in string form and the storage
  timestamp, as the validator reads them.\<close>

record indexed_operation =
  operation :: operation
  cid :: string
  createdAt :: string

text \<open>\<^verbatim>\<open>t.DocumentData\<close>\<close>

record document_data =
  doc_did :: string
  doc_verificationMethods :: "(string \<times> string) list"
  doc_rotationKeys :: "string list"
  doc_alsoKnownAs :: "string list"
  doc_services :: "(string \<times> service_entry) list"

text \<open>
  Modelled from the spec: the error classes of \<^verbatim>\<open>error.ts\<close>, which is not among the
  sources: the five typed validation errors with the payloads their constructors are
  given in the validator. Beside them stand the exceptions that pass through the validator
  uncaught: the one \<^verbatim>\<open>CID.fromString\<close> throws on a string it cannot parse (with that
  string), the one \<^verbatim>\<open>fromBase64Url\<close> throws on a signature it cannot decode (with that
  signature), the one \<^verbatim>\<open>verifySigWithDidKey\<close> throws on a did-key it does not support
  (with that key), and the \<^verbatim>\<open>TypeError\<close> of the JavaScript runtime on a property read of
  \<^verbatim>\<open>undefined\<close>.
\<close>

datatype error =
    MisorderedOperationError
  | InvalidSignatureError operation
  | GenesisHashError string
  | ImproperOperationError string operation
  | LateRecoveryError int
  | CidParseError string
  | Base64UrlError string
  | DidKeyError string
  | TypeError

fun is_validation_error :: "error \<Rightarrow> bool" where
  "is_validation_error (CidParseError _) = False"
| "is_validation_error (Base64UrlError _) = False"
| "is_validation_error (DidKeyError _) = False"
| "is_validation_error TypeError = False"
| "is_validation_error _ = True"

section \<open>The libraries the validator calls\<close>

text \<open>
  The functions imported from \<^verbatim>\<open>@atcute/cid\<close>, \<^verbatim>\<open>@atcute/cbor\<close>,
  \<^verbatim>\<open>@atcute/multibase\<close>, \<^verbatim>\<open>@atcute/crypto\<close> and the runtime (\<^verbatim>\<open>crypto.subtle.digest\<close>,
  \<^verbatim>\<open>Date.parse\<close>) are not part of the repository; every function of the validator takes
  them as a parameter \<open>L\<close>. The types \<open>'cid\<close> (\<^verbatim>\<open>CID.Cid\<close>) and \<open>'bytes\<close>
  (\<^verbatim>\<open>Uint8Array\<close>) are opaque to the validator. The validator has no \<^verbatim>\<open>catch\<close>, so an
  exception of a library function is the outcome of the call that made it.
  \<^item> \<open>cid_fromString\<close> is \<open>None\<close> where \<^verbatim>\<open>CID.fromString\<close> throws;
  \<^item> \<open>fromBase64Url\<close> is \<open>None\<close> where the decoder throws (a string that is not
    base64url);
  \<^item> \<open>verifySigWithDidKey\<close> is \<open>None\<close> where the verifier throws (a did-key it does not
    support), and otherwise the boolean it resolves to;
  \<^item> \<open>cbor_encode\<close> is \<^verbatim>\<open>cbor.encode\<close> on an operation with its \<^verbatim>\<open>sig\<close>,
    \<open>cbor_encode_unsigned\<close> is \<^verbatim>\<open>cbor.encode\<close> on an operation without it; the encoder,
    the digest and the base32 encoder return on every value of their argument types;
  \<^item> \<open>date_parse\<close> is \<^verbatim>\<open>Date.parse\<close>: a time value, which is a double holding an integral
    number of milliseconds, or \<open>None\<close> for \<^verbatim>\<open>NaN\<close>.
\<close>

record ('cid, 'bytes) lib =
  cid_fromString :: "string \<Rightarrow> 'cid option"
  cid_toString :: "'cid \<Rightarrow> string"
  cbor_encode :: "operation \<Rightarrow> 'bytes"
  cbor_encode_unsigned :: "unsigned_operation \<Rightarrow> 'bytes"
  fromBase64Url :: "string \<Rightarrow> 'bytes option"
  toBase32 :: "'bytes \<Rightarrow> string"
  toSha256 :: "'bytes \<Rightarrow> 'bytes"
  verifySigWithDidKey :: "string \<Rightarrow> 'bytes \<Rightarrow> 'bytes \<Rightarrow> bool option"
  date_parse :: "string \<Rightarrow> int option"

section \<open>JavaScript string and array primitives\<close>

definition startsWith :: "string \<Rightarrow> string \<Rightarrow> bool" where
  "startsWith str p = prefix p str"

definition endsWith :: "string \<Rightarrow> string \<Rightarrow> bool" where
  "endsWith str p = suffix p str"

text \<open>\<^verbatim>\<open>str.replace(pat, rep)\<close> with a string pattern: only the first occurrence of
  \<open>pat\<close>, searched from the left, is replaced.\<close>

fun js_replace :: "string \<Rightarrow> string \<Rightarrow> string \<Rightarrow> string" where
  "js_replace pat rep [] = (if pat = [] then rep else [])"
| "js_replace pat rep (c # cs) =
     (if prefix pat (c # cs) then rep @ drop (length pat) (c # cs)
      else c # js_replace pat rep cs)"

text \<open>\<^verbatim>\<open>xs.slice(start, end)\<close>: a negative index counts from the end, and both are
  clamped to the array.\<close>

definition js_index :: "nat \<Rightarrow> int \<Rightarrow> nat" where
  "js_index n i = (if i < 0 then nat (max (int n + i) 0) else min (nat i) n)"

definition js_slice :: "'a list \<Rightarrow> int \<Rightarrow> int \<Rightarrow> 'a list" where
  "js_slice xs start end =
     (let s = js_index (length xs) start; e = js_index (length xs) end
      in take (e - s) (drop s xs))"

definition js_slice_from :: "'a list \<Rightarrow> int \<Rightarrow> 'a list" where
  "js_slice_from xs start = drop (js_index (length xs) start) xs"

text \<open>\<^verbatim>\<open>xs.findIndex(p)\<close>: the first index whose element satisfies \<open>p\<close>, or \<open>-1\<close>.\<close>

fun findIndex :: "('a \<Rightarrow> bool) \<Rightarrow> 'a list \<Rightarrow> int" where
  "findIndex p [] = - 1"
| "findIndex p (x # xs) =
     (if p x then 0 else (let i = findIndex p xs in if i < 0 then - 1 else i + 1))"

text \<open>\<^verbatim>\<open>xs.indexOf(v)\<close>\<close>

definition indexOf :: "'a list \<Rightarrow> 'a \<Rightarrow> int" where
  "indexOf xs v = findIndex (\<lambda>x. x = v) xs"

section \<open>operations.ts\<close>

definition didForCreateOp :: "('cid, 'bytes) lib \<Rightarrow> operation \<Rightarrow> string" where
  "didForCreateOp L x =
     (let hashOfGenesis = toSha256 L (cbor_encode L x);
          hashB32 = toBase32 L hashOfGenesis;
          truncated = js_slice hashB32 0 24
      in ''did:plc:'' @ truncated)"

definition ensureHttpPrefix :: "string \<Rightarrow> string" where
  "ensureHttpPrefix str =
     (if startsWith str ''http://'' \<or> startsWith str ''https://'' then str
      else ''https://'' @ str)"

definition ensureAtprotoPrefix :: "string \<Rightarrow> string" where
  "ensureAtprotoPrefix str =
     (if startsWith str ''at://'' then str
      else (let stripped = js_replace ''https://'' '''' (js_replace ''http://'' '''' str)
            in ''at://'' @ stripped))"

text \<open>
  \<^verbatim>\<open>normalizeOp\<close> is declared on \<^verbatim>\<open>t.CompatibleOp\<close>. On a tombstone object the
  second branch would read \<^verbatim>\<open>op.handle\<close> (\<^verbatim>\<open>undefined\<close>) and
  \<^verbatim>\<open>ensureAtprotoPrefix\<close> would throw a \<^verbatim>\<open>TypeError\<close> on \<^verbatim>\<open>str.startsWith\<close>.
\<close>

fun normalizeOp :: "operation \<Rightarrow> error + operation" where
  "normalizeOp (Plc_operation vm rk aka sv p s) = Inr (Plc_operation vm rk aka sv p s)"
| "normalizeOp (Create sk rk h sv p s) =
     Inr (Plc_operation
            [(''atproto'', sk)]
            [rk, sk]
            [ensureAtprotoPrefix h]
            [(''atproto_pds'',
              \<lparr>service_type = ''AtprotoPersonalDataServer'', endpoint = ensureHttpPrefix sv\<rparr>)]
            p
            s)"
| "normalizeOp (Plc_tombstone p s) = Inl TypeError"

text \<open>The loop of \<^verbatim>\<open>assureValidSig\<close> over the allowed did-keys: it returns the first key
  that verifies, or nothing when the list is exhausted, and stops at a key on which the
  verifier throws.\<close>

fun firstValidKey ::
  "('cid, 'bytes) lib \<Rightarrow> 'bytes \<Rightarrow> 'bytes \<Rightarrow> string list \<Rightarrow> error + string option" where
  "firstValidKey L sigBytes dataBytes [] = Inr None"
| "firstValidKey L sigBytes dataBytes (didKey # rest) =
     (case verifySigWithDidKey L didKey sigBytes dataBytes of
        None \<Rightarrow> Inl (DidKeyError didKey)
      | Some isValid \<Rightarrow>
          if isValid then Inr (Some didKey)
          else firstValidKey L sigBytes dataBytes rest)"

definition assureValidSig ::
  "('cid, 'bytes) lib \<Rightarrow> string list \<Rightarrow> operation \<Rightarrow> error + string" where
  "assureValidSig L allowedDidKeys x =
     (if endsWith (sig x) ''='' then Inl (InvalidSignatureError x)
      else case fromBase64Url L (sig x) of
        None \<Rightarrow> Inl (Base64UrlError (sig x))
      | Some sigBytes \<Rightarrow>
         (let dataBytes = cbor_encode_unsigned L (opData x)
          in case firstValidKey L sigBytes dataBytes allowedDidKeys of
               Inl e \<Rightarrow> Inl e
             | Inr (Some didKey) \<Rightarrow> Inr didKey
             | Inr None \<Rightarrow> Inl (InvalidSignatureError x)))"

definition assureValidCreationOp ::
  "('cid, 'bytes) lib \<Rightarrow> string \<Rightarrow> operation \<Rightarrow> error + document_data" where
  "assureValidCreationOp L did x =
     (if is_plc_tombstone x then Inl MisorderedOperationError
      else case normalizeOp x of
        Inl e \<Rightarrow> Inl e
      | Inr normalized \<Rightarrow>
         (case assureValidSig L (rotationKeys normalized) x of
            Inl e \<Rightarrow> Inl e
          | Inr _ \<Rightarrow>
             (let expectedDid = didForCreateOp L x
              in if expectedDid \<noteq> did then Inl (GenesisHashError expectedDid)
                 else if prev x \<noteq> None
                   then Inl (ImproperOperationError ''expected null prev on create'' x)
                 else Inr \<lparr>doc_did = did,
                           doc_verificationMethods = verificationMethods normalized,
                           doc_rotationKeys = rotationKeys normalized,
                           doc_alsoKnownAs = alsoKnownAs normalized,
                           doc_services = services normalized\<rparr>)))"

section \<open>The step validator and the log driver\<close>

definition SECOND :: int where "SECOND = 1000"
definition MINUTE :: int where "MINUTE = 60 * SECOND"
definition HOUR :: int where "HOUR = 60 * MINUTE"
definition RECOVERY_WINDOW :: int where "RECOVERY_WINDOW = 72 * HOUR"

text \<open>The object returned by \<^verbatim>\<open>assureValidNextOp\<close>: its fields \<^verbatim>\<open>nullified\<close>,
  \<^verbatim>\<open>prev\<close> and \<^verbatim>\<open>ops\<close>.\<close>

record 'cid next_op =
  nullified :: "string list"
  new_prev :: "'cid option"
  new_ops :: "indexed_operation list"

text \<open>
  \<^verbatim>\<open>proposed.operation.prev ? CID.fromString(proposed.operation.prev) : undefined\<close>:
  \<^verbatim>\<open>null\<close> and the empty string are falsy and give \<^verbatim>\<open>undefined\<close> (the outer \<open>None\<close>);
  any other string is parsed, and the parser may throw.
\<close>

definition proposedPrev ::
  "('cid, 'bytes) lib \<Rightarrow> indexed_operation \<Rightarrow> error + 'cid option" where
  "proposedPrev L proposed =
     (case prev (operation proposed) of
        None \<Rightarrow> Inr None
      | Some s \<Rightarrow>
          if s = '''' then Inr None
          else (case cid_fromString L s of
                  None \<Rightarrow> Inl (CidParseError s)
                | Some c \<Rightarrow> Inr (Some c)))"

text \<open>
  The subtraction of two time values. Both are doubles that hold integers, so the result is
  the double nearest to the exact difference, ties going to the even significand. A double
  has a significand of 53 bits: an integer of at most 53 bits is itself a double, and one of
  \<open>53 + k\<close> bits is rounded to a multiple of \<open>2 ^ k\<close>. \<open>bit_length n\<close> is the number of
  bits of \<open>n\<close>. Time values are at most \<open>8.64 * 10 ^ 15\<close> in magnitude, so a difference
  has at most 54 bits and never leaves the range of finite doubles.
\<close>

fun bit_length :: "nat \<Rightarrow> nat" where
  "bit_length n = (if n = 0 then 0 else Suc (bit_length (n div 2)))"

declare bit_length.simps [simp del]

definition round_double :: "int \<Rightarrow> int" where
  "round_double d =
     (let m = nat \<bar>d\<bar>; k = bit_length m - 53; u = 2 ^ k; q = m div u; r = m mod u
      in if k = 0 then d
         else sgn d * int ((if u < 2 * r \<or> (2 * r = u \<and> odd q) then q + 1 else q) * u))"

definition js_minus :: "int \<Rightarrow> int \<Rightarrow> int" where
  "js_minus a b = round_double (a - b)"

text \<open>
  The recovery-window test. \<^verbatim>\<open>Date.parse\<close> gives \<^verbatim>\<open>NaN\<close> on a string it cannot read;
  then \<^verbatim>\<open>timeLapsed\<close> is \<^verbatim>\<open>NaN\<close> and \<^verbatim>\<open>timeLapsed > RECOVERY_WINDOW\<close> is false.
\<close>

definition recoveryWindow ::
  "('cid, 'bytes) lib \<Rightarrow> indexed_operation list \<Rightarrow> indexed_operation \<Rightarrow> indexed_operation
     \<Rightarrow> error option" where
  "recoveryWindow L nullifiedOps proposed firstNullified =
     (if length nullifiedOps > 0 then
        (case (date_parse L (createdAt proposed), date_parse L (createdAt firstNullified)) of
           (Some a, Some b) \<Rightarrow>
             (let timeLapsed = js_minus a b
              in if timeLapsed > RECOVERY_WINDOW then Some (LateRecoveryError timeLapsed)
                 else None)
         | _ \<Rightarrow> None)
      else None)"

definition assureValidNextOp ::
  "('cid, 'bytes) lib \<Rightarrow> string \<Rightarrow> indexed_operation list \<Rightarrow> indexed_operation
     \<Rightarrow> error + 'cid next_op" where
  "assureValidNextOp L did ops proposed =
     (if length ops = 0 then
        (case assureValidCreationOp L did (operation proposed) of
           Inl e \<Rightarrow> Inl e
         | Inr _ \<Rightarrow> Inr \<lparr>nullified = [], new_prev = None, new_ops = [proposed]\<rparr>)
      else case proposedPrev L proposed of
        Inl e \<Rightarrow> Inl e
      | Inr None \<Rightarrow> Inl MisorderedOperationError
      | Inr (Some pp) \<Rightarrow>
         (let indexOfPrev = findIndex (\<lambda>x. cid_toString L pp = cid x) ops
          in if indexOfPrev < 0 then Inl MisorderedOperationError
             else
              (let opsInHistory = js_slice ops 0 (indexOfPrev + 1);
                   nullifiedOps = js_slice_from ops (indexOfPrev + 1)
               in case opsInHistory of
                    [] \<Rightarrow> Inl MisorderedOperationError
                  | _ # _ \<Rightarrow>
                     (let lastOp = last opsInHistory
                      in if is_plc_tombstone (operation lastOp) then Inl MisorderedOperationError
                         else case normalizeOp (operation lastOp) of
                           Inl e \<Rightarrow> Inl e
                         | Inr lastOpNormalized \<Rightarrow>
                            (case nullifiedOps of
                               [] \<Rightarrow>
                                (case assureValidSig L (rotationKeys lastOpNormalized)
                                        (operation proposed) of
                                   Inl e \<Rightarrow> Inl e
                                 | Inr _ \<Rightarrow>
                                    Inr \<lparr>nullified = [], new_prev = Some pp,
                                         new_ops = ops @ [proposed]\<rparr>)
                             | firstNullified # _ \<Rightarrow>
                                (case assureValidSig L (rotationKeys lastOpNormalized)
                                        (operation firstNullified) of
                                   Inl e \<Rightarrow> Inl e
                                 | Inr disputedSigner \<Rightarrow>
                                    (let indexOfSigner =
                                           indexOf (rotationKeys lastOpNormalized) disputedSigner;
                                         morePowerfulKeys =
                                           js_slice (rotationKeys lastOpNormalized) 0 indexOfSigner
                                     in case assureValidSig L morePowerfulKeys
                                               (operation proposed) of
                                          Inl e \<Rightarrow> Inl e
                                        | Inr _ \<Rightarrow>
                                           (case recoveryWindow L nullifiedOps proposed
                                                   firstNullified of
                                              Some e \<Rightarrow> Inl e
                                            | None \<Rightarrow>
                                               Inr \<lparr>nullified = map cid nullifiedOps,
                                                    new_prev = Some pp,
                                                    new_ops = opsInHistory @ [proposed]\<rparr>))))))))"

definition opToData :: "string \<Rightarrow> operation \<Rightarrow> error + document_data option" where
  "opToData did x =
     (if is_plc_tombstone x then Inr None
      else case normalizeOp x of
        Inl e \<Rightarrow> Inl e
      | Inr n \<Rightarrow>
         Inr (Some \<lparr>doc_did = did,
                    doc_verificationMethods = verificationMethods n,
                    doc_rotationKeys = rotationKeys n,
                    doc_alsoKnownAs = alsoKnownAs n,
                    doc_services = services n\<rparr>))"

text \<open>The \<^verbatim>\<open>for (const op of ops)\<close> loop of \<^verbatim>\<open>validateOperationLog\<close>, from a given
  history.\<close>

fun foldOps ::
  "('cid, 'bytes) lib \<Rightarrow> string \<Rightarrow> indexed_operation list \<Rightarrow> indexed_operation list
     \<Rightarrow> error + indexed_operation list" where
  "foldOps L did history [] = Inr history"
| "foldOps L did history (x # rest) =
     (case assureValidNextOp L did history x of
        Inl e \<Rightarrow> Inl e
      | Inr r \<Rightarrow> foldOps L did (new_ops r) rest)"

text \<open>\<^verbatim>\<open>history.at(-1)!.operation\<close> throws a \<^verbatim>\<open>TypeError\<close> when the history is empty.\<close>

definition validateOperationLog ::
  "('cid, 'bytes) lib \<Rightarrow> string \<Rightarrow> indexed_operation list \<Rightarrow> error + document_data option" where
  "validateOperationLog L did ops =
     (case foldOps L did [] ops of
        Inl e \<Rightarrow> Inl e
      | Inr history \<Rightarrow>
         (case history of
            [] \<Rightarrow> Inl TypeError
          | _ # _ \<Rightarrow> opToData did (operation (last history))))"

section \<open>The URL prefixing rules as the specification words them\<close>

text \<open>
  \<open>strip_first_occurrence pat str\<close> removes the first occurrence of \<open>pat\<close> in \<open>str\<close>,
  wherever it starts, and leaves \<open>str\<close> unchanged when there is none: the least start
  index at which \<open>pat\<close> occurs is searched, and the characters of that occurrence are cut
  out. \<open>ensure_https\<close> and \<open>ensure_at\<close> are the two rules of the specification; for the
  stripping, \<open>ensure_at\<close> removes the first \<^verbatim>\<open>http://\<close> and then, from what is left, the
  first \<^verbatim>\<open>https://\<close>.
\<close>

definition occurs_at :: "string \<Rightarrow> string \<Rightarrow> nat \<Rightarrow> bool" where
  "occurs_at pat str i = (take (length pat) (drop i str) = pat)"

definition strip_first_occurrence :: "string \<Rightarrow> string \<Rightarrow> string" where
  "strip_first_occurrence pat str =
     (case List.find (occurs_at pat str) [0 ..< Suc (length str)] of
        None \<Rightarrow> str
      | Some i \<Rightarrow> take i str @ drop (i + length pat) str)"

definition ensure_https :: "string \<Rightarrow> string" where
  "ensure_https s =
     (if prefix ''http://'' s \<or> prefix ''https://'' s then s else ''https://'' @ s)"

definition ensure_at :: "string \<Rightarrow> string" where
  "ensure_at s =
     (if prefix ''at://'' s then s
      else ''at://'' @ strip_first_occurrence ''https://'' (strip_first_occurrence ''http://'' s))"

section \<open>Predicates of the specification\<close>

text \<open>
  \<open>references L ops proposed pp i\<close>: the \<^verbatim>\<open>prev\<close> of the proposed operation is a
  non-empty string that parses to the CID \<open>pp\<close>, and \<open>i\<close> is the first index of the
  confirmed history whose \<^verbatim>\<open>cid\<close> is the string form of \<open>pp\<close>.
\<close>

definition references ::
  "('cid, 'bytes) lib \<Rightarrow> indexed_operation list \<Rightarrow> indexed_operation \<Rightarrow> 'cid \<Rightarrow> nat \<Rightarrow> bool" where
  "references L ops proposed pp i \<longleftrightarrow>
     (\<exists>s. prev (operation proposed) = Some s \<and> s \<noteq> [] \<and> cid_fromString L s = Some pp)
     \<and> i < length ops
     \<and> cid (ops ! i) = cid_toString L pp
     \<and> (\<forall>j < i. cid (ops ! j) \<noteq> cid_toString L pp)"

text \<open>
  \<open>sig_verifies L k x\<close>: the signature of \<open>x\<close> is accepted under the did-key \<open>k\<close>: it
  does not end in \<^verbatim>\<open>=\<close>, it decodes, and the library verifies the decoded bytes against
  the encoding of \<open>x\<close> without its \<^verbatim>\<open>sig\<close>. \<open>sig_refused L k x\<close>: the signature does
  not end in \<^verbatim>\<open>=\<close>, it decodes, and the library's verification under \<open>k\<close> returns false.
\<close>

definition sig_verifies :: "('cid, 'bytes) lib \<Rightarrow> string \<Rightarrow> operation \<Rightarrow> bool" where
  "sig_verifies L k x \<longleftrightarrow>
     \<not> endsWith (sig x) ''=''
     \<and> (case fromBase64Url L (sig x) of
          None \<Rightarrow> False
        | Some sigBytes \<Rightarrow>
            verifySigWithDidKey L k sigBytes (cbor_encode_unsigned L (opData x)) = Some True)"

definition sig_refused :: "('cid, 'bytes) lib \<Rightarrow> string \<Rightarrow> operation \<Rightarrow> bool" where
  "sig_refused L k x \<longleftrightarrow>
     \<not> endsWith (sig x) ''=''
     \<and> (case fromBase64Url L (sig x) of
          None \<Rightarrow> False
        | Some sigBytes \<Rightarrow>
            verifySigWithDidKey L k sigBytes (cbor_encode_unsigned L (opData x)) = Some False)"

text \<open>
  \<open>more_powerful keys signer\<close>: the keys that stand strictly before the first occurrence
  of \<open>signer\<close> in the rotation-key list.
\<close>

definition more_powerful :: "string list \<Rightarrow> string \<Rightarrow> string list" where
  "more_powerful keys signer = takeWhile (\<lambda>k. k \<noteq> signer) keys"

text \<open>
  Chain continuity: the first operation has a null \<^verbatim>\<open>prev\<close>, and the \<^verbatim>\<open>prev\<close> of every
  later operation is the \<^verbatim>\<open>cid\<close> of the operation before it.
\<close>

fun prev_linked :: "indexed_operation list \<Rightarrow> bool" where
  "prev_linked (x # y # rest) \<longleftrightarrow> prev (operation y) = Some (cid x) \<and> prev_linked (y # rest)"
| "prev_linked _ \<longleftrightarrow> True"

definition chain_continuity :: "indexed_operation list \<Rightarrow> bool" where
  "chain_continuity h \<longleftrightarrow>
     (case h of [] \<Rightarrow> True | x # _ \<Rightarrow> prev (operation x) = None \<and> prev_linked h)"

text \<open>
  The string form of a CID is canonical in the library: a string that parses is the string
  form of the CID it parses to.
\<close>

definition canonical_cid_strings :: "('cid, 'bytes) lib \<Rightarrow> bool" where
  "canonical_cid_strings L \<longleftrightarrow> (\<forall>s c. cid_fromString L s = Some c \<longrightarrow> cid_toString L c = s)"

text \<open>
  The log driver as the specification words it: a left fold of the step over the log,
  from the empty history, that keeps the \<^verbatim>\<open>ops\<close> of each step and stops at the first
  error.
\<close>

definition step_ops ::
  "('cid, 'bytes) lib \<Rightarrow> string \<Rightarrow> error + indexed_operation list \<Rightarrow> indexed_operation
     \<Rightarrow> error + indexed_operation list" where
  "step_ops L did acc x =
     (case acc of
        Inl e \<Rightarrow> Inl e
      | Inr history \<Rightarrow>
         (case assureValidNextOp L did history x of
            Inl e \<Rightarrow> Inl e
          | Inr r \<Rightarrow> Inr (new_ops r)))"

definition fold_log ::
  "('cid, 'bytes) lib \<Rightarrow> string \<Rightarrow> indexed_operation list \<Rightarrow> error + indexed_operation list" where
  "fold_log L did log = foldl (step_ops L did) (Inr []) log"

section \<open>A concrete instance of the libraries, and sample operations\<close>

text \<open>
  A small instance of the library parameter on which the definitions evaluate: CIDs are
  their own string form and parse exactly when the string starts with the multibase prefix
  \<^verbatim>\<open>b\<close>; bytes are strings; the decoder rejects a string that contains \<^verbatim>\<open>=\<close>, which is
  not in the base64url alphabet; the encoding of an operation is its type and its
  \<^verbatim>\<open>prev\<close>, with the signature appended when it is present; a signature by key \<open>k\<close> over
  the bytes \<open>d\<close> is \<open>k @ ''~'' @ d\<close>, and the verifier throws on a key that does not start
  with \<^verbatim>\<open>did:key:\<close>; \<^verbatim>\<open>Date.parse\<close> is given on four ISO instants and on the two ends
  of the range of time values.
\<close>

definition sample_encode_unsigned :: "unsigned_operation \<Rightarrow> string" where
  "sample_encode_unsigned u =
     (case u of
        Plc_operation _ _ _ _ _ _ \<Rightarrow> ''op''
      | Create _ _ _ _ _ _ \<Rightarrow> ''create''
      | Plc_tombstone _ _ \<Rightarrow> ''tombstone'')
     @ '':'' @ (case prev u of None \<Rightarrow> ''null'' | Some c \<Rightarrow> c)"

definition sample_date_parse :: "string \<Rightarrow> int option" where
  "sample_date_parse = map_of
     [(''2024-01-01T00:00:00.000Z'', 1704067200000),
      (''2024-01-02T00:00:00.000Z'', 1704153600000),
      (''2024-01-04T00:00:00.000Z'', 1704326400000),
      (''2024-01-04T00:00:00.001Z'', 1704326400001),
      (''-271821-04-20T00:00:00.001Z'', - 8639999999999999),
      (''+275760-09-13T00:00:00.000Z'', 8640000000000000)]"

definition sample_lib :: "(string, string) lib" where
  "sample_lib =
     \<lparr>cid_fromString = (\<lambda>s. if startsWith s ''b'' then Some s else None),
      cid_toString = (\<lambda>c. c),
      cbor_encode = (\<lambda>x. sample_encode_unsigned (opData x) @ ''#'' @ sig x),
      cbor_encode_unsigned = sample_encode_unsigned,
      fromBase64Url = (\<lambda>s. if CHR ''='' \<in> set s then None else Some s),
      toBase32 = (\<lambda>b. b),
      toSha256 = (\<lambda>b. b),
      verifySigWithDidKey =
        (\<lambda>k sigBytes dataBytes.
           if startsWith k ''did:key:'' then Some (sigBytes = k @ ''~'' @ dataBytes) else None),
      date_parse = sample_date_parse\<rparr>"

text \<open>The instance in which every string decodes and every signature verifies under every
  key.\<close>

definition trusting_lib :: "(string, string) lib" where
  "trusting_lib =
     sample_lib\<lparr>fromBase64Url := Some, verifySigWithDidKey := (\<lambda>k sigBytes dataBytes. Some True)\<rparr>"

text \<open>Signing in the sample instance, as \<^verbatim>\<open>addSignature\<close> does: the signature is computed
  over the encoding of the unsigned operation.\<close>

definition sample_sign :: "string \<Rightarrow> unsigned_operation \<Rightarrow> operation" where
  "sample_sign k u = map_op (\<lambda>_. k @ ''~'' @ sample_encode_unsigned u) u"

definition KR :: string where "KR = ''did:key:zRecovery''"
definition KS :: string where "KS = ''did:key:zSigning''"

text \<open>A genesis with rotation keys \<open>[KR, KS]\<close> signed by \<open>KS\<close>, an update and a tombstone
  on it signed by \<open>KS\<close>, and a fork from the genesis signed by \<open>KR\<close> or by \<open>KS\<close>.\<close>

definition sample_services :: "(string \<times> service_entry) list" where
  "sample_services =
     [(''atproto_pds'',
       \<lparr>service_type = ''AtprotoPersonalDataServer'', endpoint = ''https://pds.test''\<rparr>)]"

definition op_G :: operation where
  "op_G = sample_sign KS
     (Plc_operation [(''atproto'', KS)] [KR, KS] [''at://alice.test''] sample_services None ())"

definition op_A :: operation where
  "op_A = sample_sign KS
     (Plc_operation [(''atproto'', KS)] [KR, KS] [''at://alice2.test''] sample_services
        (Some ''bG'') ())"

definition op_T :: operation where
  "op_T = sample_sign KS (Plc_tombstone (Some ''bG'') ())"

definition op_B :: operation where
  "op_B = sample_sign KR
     (Plc_operation [(''atproto'', KS)] [KR, KS] [''at://bob.test''] sample_services
        (Some ''bG'') ())"

definition op_B_weak :: operation where
  "op_B_weak = sample_sign KS
     (Plc_operation [(''atproto'', KS)] [KR, KS] [''at://bob.test''] sample_services
        (Some ''bG'') ())"

definition did_G :: string where
  "did_G = ''did:plc:op:null#did:key:zSigning''"

definition ix_G :: indexed_operation where
  "ix_G = \<lparr>operation = op_G, cid = ''bG'', createdAt = ''2024-01-01T00:00:00.000Z''\<rparr>"

definition ix_A :: "string \<Rightarrow> indexed_operation" where
  "ix_A t = \<lparr>operation = op_A, cid = ''bA'', createdAt = t\<rparr>"

definition op_A2 :: operation where
  "op_A2 = sample_sign KS
     (Plc_operation [(''atproto'', KS)] [KR, KS] [''at://alice3.test''] sample_services
        (Some ''bA'') ())"

definition ix_A2 :: "string \<Rightarrow> indexed_operation" where
  "ix_A2 t = \<lparr>operation = op_A2, cid = ''bA2'', createdAt = t\<rparr>"

definition ix_T :: indexed_operation where
  "ix_T = \<lparr>operation = op_T, cid = ''bT'', createdAt = ''2024-01-01T00:00:00.000Z''\<rparr>"

definition ix_B :: "string \<Rightarrow> indexed_operation" where
  "ix_B t = \<lparr>operation = op_B, cid = ''bB'', createdAt = t\<rparr>"

text \<open>An update signed by \<open>KS\<close> with a given \<^verbatim>\<open>prev\<close>.\<close>

definition ix_X :: "string option \<Rightarrow> indexed_operation" where
  "ix_X p =
     \<lparr>operation = sample_sign KS
        (Plc_operation [(''atproto'', KS)] [KR, KS] [''at://carol.test''] sample_services p ()),
      cid = ''bX'', createdAt = ''2024-01-02T00:00:00.000Z''\<rparr>"

text \<open>The update \<open>A\<close> signed by the recovery key, and a genesis whose rotation-key list
  holds \<open>KS\<close> twice, around \<open>KR\<close>.\<close>

definition ix_A_strong :: "string \<Rightarrow> indexed_operation" where
  "ix_A_strong t =
     \<lparr>operation = sample_sign KR
        (Plc_operation [(''atproto'', KS)] [KR, KS] [''at://alice2.test''] sample_services
           (Some ''bG'') ()),
      cid = ''bA'', createdAt = t\<rparr>"

definition ix_G_dup :: indexed_operation where
  "ix_G_dup =
     \<lparr>operation = sample_sign KS
        (Plc_operation [(''atproto'', KS)] [KS, KR, KS] [''at://alice.test''] sample_services
           None ()),
      cid = ''bG'', createdAt = ''2024-01-01T00:00:00.000Z''\<rparr>"

definition ix_B_weak :: "string \<Rightarrow> indexed_operation" where
  "ix_B_weak t = \<lparr>operation = op_B_weak, cid = ''bB'', createdAt = t\<rparr>"

text \<open>A fork from the genesis whose signature is not base64url: it does not end in
  \<^verbatim>\<open>=\<close> and holds one.\<close>

definition ix_B_undecodable :: "string \<Rightarrow> indexed_operation" where
  "ix_B_undecodable t =
     \<lparr>operation =
        Plc_operation [(''atproto'', KS)] [KR, KS] [''at://bob.test''] sample_services
          (Some ''bG'') ''A=A'',
      cid = ''bB'', createdAt = t\<rparr>"

section \<open>Auxiliary facts about the primitives and the step\<close>

lemma findIndex_ge: "- 1 \<le> findIndex p xs"
  by (induction xs) (auto simp: Let_def)

lemma findIndex_neg_iff: "findIndex p xs < 0 \<longleftrightarrow> (\<forall>x \<in> set xs. \<not> p x)"
  by (induction xs) (use findIndex_ge in \<open>auto simp: Let_def\<close>)

lemma findIndex_eq_takeWhile:
  "\<exists>x \<in> set xs. p x \<Longrightarrow> findIndex p xs = int (length (takeWhile (\<lambda>x. \<not> p x) xs))"
  by (induction xs) (auto simp: Let_def findIndex_neg_iff)

lemma findIndex_first:
  "findIndex p xs = int i \<Longrightarrow> i < length xs \<and> p (xs ! i) \<and> (\<forall>j < i. \<not> p (xs ! j))"
proof (induction xs arbitrary: i)
  case Nil
  then show ?case by simp
next
  case (Cons a xs)
  show ?case
  proof (cases "p a")
    case True
    with Cons.prems show ?thesis by simp
  next
    case False
    with Cons.prems have nn: "\<not> findIndex p xs < 0" and eq: "findIndex p xs + 1 = int i"
      by (auto simp: Let_def split: if_splits)
    then obtain k where k: "i = Suc k" "findIndex p xs = int k"
      by (cases i) auto
    from Cons.IH [OF k(2)] False k(1) show ?thesis
      by (auto simp: nth_Cons split: nat.splits)
  qed
qed

lemma findIndex_nat:
  "\<not> findIndex p xs < 0 \<Longrightarrow> findIndex p xs = int (nat (findIndex p xs))"
  by simp

lemma js_slice_take: "js_slice xs 0 (int n) = take n xs"
  by (simp add: js_slice_def js_index_def Let_def min_def)

lemma js_slice_from_drop: "js_slice_from xs (int n) = drop n xs"
  by (simp add: js_slice_from_def js_index_def min_def)

lemma endsWith_char: "endsWith s [c] \<longleftrightarrow> s \<noteq> [] \<and> last s = c"
  by (cases s rule: rev_cases) (auto simp: endsWith_def suffix_def)

lemma firstValidKey_find:
  "firstValidKey L sb db ks =
     (case List.find (\<lambda>k. verifySigWithDidKey L k sb db \<noteq> Some False) ks of
        None \<Rightarrow> Inr None
      | Some k \<Rightarrow>
          if verifySigWithDidKey L k sb db = Some True then Inr (Some k)
          else Inl (DidKeyError k))"
  by (induction ks) (auto split: option.splits)

lemma assureValidSig_Inr:
  "assureValidSig L keys x = Inr k \<longleftrightarrow>
     (\<exists>i < length keys. keys ! i = k \<and> sig_verifies L k x
        \<and> (\<forall>j < i. sig_refused L (keys ! j) x))"
proof (cases "endsWith (sig x) ''=''")
  case True
  then show ?thesis
    by (auto simp: assureValidSig_def sig_verifies_def)
next
  case False
  show ?thesis
  proof (cases "fromBase64Url L (sig x)")
    case None
    with False show ?thesis
      by (auto simp: assureValidSig_def sig_verifies_def)
  next
    case (Some sb)
    let ?db = "cbor_encode_unsigned L (opData x)"
    let ?P = "\<lambda>k. verifySigWithDidKey L k sb ?db \<noteq> Some False"
    have v: "\<And>k. sig_verifies L k x \<longleftrightarrow> verifySigWithDidKey L k sb ?db = Some True"
      and r: "\<And>k. sig_refused L k x \<longleftrightarrow> verifySigWithDidKey L k sb ?db = Some False"
      using False Some by (simp_all add: sig_verifies_def sig_refused_def)
    have "assureValidSig L keys x = Inr k \<longleftrightarrow>
        (List.find ?P keys = Some k \<and> verifySigWithDidKey L k sb ?db = Some True)"
      using False Some
      by (auto simp: assureValidSig_def firstValidKey_find Let_def split: option.splits if_splits)
    also have "\<dots> \<longleftrightarrow> (\<exists>i < length keys. keys ! i = k
        \<and> verifySigWithDidKey L k sb ?db = Some True
        \<and> (\<forall>j < i. verifySigWithDidKey L (keys ! j) sb ?db = Some False))"
      by (auto simp: find_Some_iff)
    finally show ?thesis by (simp add: v r)
  qed
qed

lemma assureValidSig_mem: "assureValidSig L keys x = Inr k \<Longrightarrow> k \<in> set keys"
  by (auto simp: assureValidSig_Inr)

lemma assureValidSig_padded:
  "endsWith (sig x) ''='' \<Longrightarrow> assureValidSig L keys x = Inl (InvalidSignatureError x)"
  by (simp add: assureValidSig_def)

lemma assureValidSig_undecodable:
  "\<not> endsWith (sig x) ''='' \<Longrightarrow> fromBase64Url L (sig x) = None
     \<Longrightarrow> assureValidSig L keys x = Inl (Base64UrlError (sig x))"
  by (simp add: assureValidSig_def)

lemma assureValidSig_all_refused:
  assumes "\<not> endsWith (sig x) ''=''" "fromBase64Url L (sig x) \<noteq> None"
    and "\<forall>k \<in> set keys. sig_refused L k x"
  shows "assureValidSig L keys x = Inl (InvalidSignatureError x)"
proof -
  from assms(2) obtain sb where sb: "fromBase64Url L (sig x) = Some sb" by auto
  have "List.find (\<lambda>k. verifySigWithDidKey L k sb (cbor_encode_unsigned L (opData x)) \<noteq> Some False) keys
      = None"
    using assms(3) sb by (auto simp: find_None_iff sig_refused_def)
  with assms(1) sb show ?thesis
    by (simp add: assureValidSig_def firstValidKey_find)
qed

lemma assureValidSig_verifier_throws:
  assumes "\<not> endsWith (sig x) ''=''" "fromBase64Url L (sig x) = Some sb"
    and "i < length keys"
    and "verifySigWithDidKey L (keys ! i) sb (cbor_encode_unsigned L (opData x)) = None"
    and "\<forall>j < i. sig_refused L (keys ! j) x"
  shows "assureValidSig L keys x = Inl (DidKeyError (keys ! i))"
proof -
  let ?db = "cbor_encode_unsigned L (opData x)"
  have "\<forall>j < i. verifySigWithDidKey L (keys ! j) sb ?db = Some False"
    using assms(1,2,5) by (simp add: sig_refused_def)
  then have "List.find (\<lambda>k. verifySigWithDidKey L k sb ?db \<noteq> Some False) keys = Some (keys ! i)"
    using assms(3,4) by (auto simp: find_Some_iff)
  with assms(1,2,4) show ?thesis
    by (simp add: assureValidSig_def firstValidKey_find)
qed

lemma bit_length_le: "n < 2 ^ k \<Longrightarrow> bit_length n \<le> k"
proof (induction k arbitrary: n)
  case 0
  then show ?case by (simp add: bit_length.simps)
next
  case (Suc k)
  then have "n div 2 < 2 ^ k" by simp
  from Suc.IH [OF this] show ?case
    by (subst bit_length.simps) simp
qed

lemma bit_length_upper: "n < 2 ^ bit_length n"
proof (induction n rule: bit_length.induct)
  case (1 n)
  show ?case
  proof (cases "n = 0")
    case True
    then show ?thesis by simp
  next
    case False
    with 1 have "n div 2 < 2 ^ bit_length (n div 2)" by simp
    then have "n < 2 * 2 ^ bit_length (n div 2)" by linarith
    with False show ?thesis by (subst bit_length.simps) simp
  qed
qed

lemma bit_length_eq: "2 ^ k \<le> n \<Longrightarrow> n < 2 ^ Suc k \<Longrightarrow> bit_length n = Suc k"
proof -
  assume a: "2 ^ k \<le> n" and b: "n < 2 ^ Suc k"
  have "bit_length n \<le> Suc k" using b by (rule bit_length_le)
  moreover have "\<not> bit_length n \<le> k"
  proof
    assume "bit_length n \<le> k"
    then have "(2::nat) ^ bit_length n \<le> 2 ^ k" by simp
    with bit_length_upper [of n] a show False by linarith
  qed
  ultimately show ?thesis by simp
qed

lemma bit_length_lower: "n \<noteq> 0 \<Longrightarrow> (2::nat) ^ (bit_length n - 1) \<le> n"
proof (induction n rule: bit_length.induct)
  case (1 n)
  show ?case
  proof (cases "n div 2 = 0")
    case True
    with 1(2) have "n = 1" by (simp add: div_eq_0_iff)
    then show ?thesis by (simp add: bit_length.simps)
  next
    case False
    with 1 have ih: "(2::nat) ^ (bit_length (n div 2) - 1) \<le> n div 2" by simp
    have pos: "bit_length (n div 2) \<noteq> 0" using False by (subst bit_length.simps) simp
    have "bit_length n = Suc (bit_length (n div 2))"
      using 1(2) by (subst bit_length.simps) simp
    then have "(2::nat) ^ (bit_length n - 1) = 2 * 2 ^ (bit_length (n div 2) - 1)"
      using pos by (cases "bit_length (n div 2)") simp_all
    with ih show ?thesis by linarith
  qed
qed

lemma two53: "(2::nat) ^ 53 = 9007199254740992" "(2::int) ^ 53 = 9007199254740992"
  by simp_all

lemma round_double_exact:
  assumes "\<bar>d\<bar> \<le> 9007199254740992"
  shows "round_double d = d"
proof (cases "\<bar>d\<bar> < 9007199254740992")
  case True
  then have "nat \<bar>d\<bar> < 9007199254740992" by linarith
  then have "nat \<bar>d\<bar> < 2 ^ 53" by simp
  then have "bit_length (nat \<bar>d\<bar>) \<le> 53" by (rule bit_length_le)
  then show ?thesis by (simp add: round_double_def Let_def)
next
  case False
  with assms have m: "nat \<bar>d\<bar> = 9007199254740992" by linarith
  have "bit_length (nat \<bar>d\<bar>) = Suc 53"
    unfolding m by (rule bit_length_eq) simp_all
  then have k: "bit_length (nat \<bar>d\<bar>) - 53 = 1" by simp
  have "sgn d * int (nat \<bar>d\<bar>) = d" by (simp add: sgn_if)
  then show ?thesis
    unfolding round_double_def Let_def k by (simp add: m)
qed

lemma round_double_large:
  assumes "9007199254740992 < d"
  shows "9007199254740992 \<le> round_double d"
proof -
  define m where "m = nat \<bar>d\<bar>"
  define k where "k = bit_length m - 53"
  define q where "q = m div 2 ^ k"
  define r where "r = m mod 2 ^ k"
  have m: "9007199254740992 < m" using assms unfolding m_def by linarith
  have rd: "round_double d =
      (if k = 0 then d
       else sgn d * int ((if 2 ^ k < 2 * r \<or> (2 * r = 2 ^ k \<and> odd q) then q + 1 else q) * 2 ^ k))"
    by (simp only: round_double_def Let_def m_def k_def q_def r_def)
  show ?thesis
  proof (cases "k = 0")
    case True
    then show ?thesis using assms by (simp add: rd)
  next
    case False
    then have bl: "bit_length m - 1 = 52 + k" unfolding k_def by simp
    have "m \<noteq> 0" using m by simp
    from bit_length_lower [OF this] have "(2::nat) ^ (52 + k) \<le> m" unfolding bl .
    then have "2 ^ 52 * 2 ^ k \<le> m" by (simp add: power_add)
    then have q: "2 ^ 52 \<le> q"
      unfolding q_def by (simp add: less_eq_div_iff_mult_less_eq)
    have u: "(2::nat) \<le> 2 ^ k" using False by (cases k) simp_all
    have "(2::nat) ^ 52 * 2 \<le> q * 2 ^ k"
      using q u by (rule mult_le_mono)
    then have "9007199254740992 \<le> q * 2 ^ k" by simp
    then have "9007199254740992
        \<le> (if 2 ^ k < 2 * r \<or> (2 * r = 2 ^ k \<and> odd q) then q + 1 else q) * 2 ^ k"
      by (auto simp: algebra_simps)
    then have "(9007199254740992::int)
        \<le> int ((if 2 ^ k < 2 * r \<or> (2 * r = 2 ^ k \<and> odd q) then q + 1 else q) * 2 ^ k)"
      by linarith
    moreover have "sgn d = 1" using assms by simp
    ultimately show ?thesis
      using False by (simp only: rd if_False mult_1)
  qed
qed

lemma round_double_negative: "d < 0 \<Longrightarrow> round_double d \<le> 0"
  by (simp add: round_double_def Let_def sgn_if)

lemma round_double_gt_iff:
  assumes "0 \<le> w" "w < 9007199254740992"
  shows "w < round_double d \<longleftrightarrow> w < d"
proof (cases "\<bar>d\<bar> \<le> 9007199254740992")
  case True
  then show ?thesis by (simp add: round_double_exact)
next
  case False
  then consider "9007199254740992 < d" | "d < - 9007199254740992" by linarith
  then show ?thesis
  proof cases
    case 1
    with round_double_large [OF 1] assms show ?thesis by linarith
  next
    case 2
    then have "d < 0" by linarith
    with round_double_negative [of d] assms show ?thesis by linarith
  qed
qed

lemma js_minus_exact: "\<bar>a - b\<bar> \<le> 9007199254740992 \<Longrightarrow> js_minus a b = a - b"
  by (simp add: js_minus_def round_double_exact)

lemma js_minus_gt_iff:
  "0 \<le> w \<Longrightarrow> w < 9007199254740992 \<Longrightarrow> w < js_minus a b \<longleftrightarrow> w < a - b"
  by (simp add: js_minus_def round_double_gt_iff)

lemma last_take_Suc: "i < length xs \<Longrightarrow> last (take (Suc i) xs) = xs ! i"
  by (simp add: take_Suc_conv_app_nth)

lemma step_at:
  assumes ne: "ops \<noteq> []"
    and pp: "proposedPrev L proposed = Inr (Some pp)"
    and ix: "findIndex (\<lambda>x. cid_toString L pp = cid x) ops = int i"
  shows "assureValidNextOp L did ops proposed =
     (if is_plc_tombstone (operation (ops ! i)) then Inl MisorderedOperationError
      else case normalizeOp (operation (ops ! i)) of
        Inl e \<Rightarrow> Inl e
      | Inr n \<Rightarrow>
         (case drop (Suc i) ops of
            [] \<Rightarrow>
             (case assureValidSig L (rotationKeys n) (operation proposed) of
                Inl e \<Rightarrow> Inl e
              | Inr _ \<Rightarrow> Inr \<lparr>nullified = [], new_prev = Some pp, new_ops = ops @ [proposed]\<rparr>)
          | firstNullified # _ \<Rightarrow>
             (case assureValidSig L (rotationKeys n) (operation firstNullified) of
                Inl e \<Rightarrow> Inl e
              | Inr disputedSigner \<Rightarrow>
                 (case assureValidSig L
                         (js_slice (rotationKeys n) 0 (indexOf (rotationKeys n) disputedSigner))
                         (operation proposed) of
                    Inl e \<Rightarrow> Inl e
                  | Inr _ \<Rightarrow>
                     (case recoveryWindow L (drop (Suc i) ops) proposed firstNullified of
                        Some e \<Rightarrow> Inl e
                      | None \<Rightarrow>
                         Inr \<lparr>nullified = map cid (drop (Suc i) ops), new_prev = Some pp,
                              new_ops = take (Suc i) ops @ [proposed]\<rparr>)))))"
proof -
  from findIndex_first [OF ix] have i: "i < length ops" by simp
  have s1: "js_slice ops 0 (int i + 1) = take (Suc i) ops"
    using js_slice_take [of ops "Suc i"] by (simp add: add.commute)
  have s2: "js_slice_from ops (int i + 1) = drop (Suc i) ops"
    using js_slice_from_drop [of ops "Suc i"] by (simp add: add.commute)
  from i obtain y ys where t: "take (Suc i) ops = y # ys"
    by (cases "take (Suc i) ops") auto
  have l: "last (y # ys) = ops ! i"
    using last_take_Suc [OF i] t by simp
  show ?thesis
    unfolding assureValidNextOp_def
    using ne by (simp add: pp ix s1 s2 t l Let_def del: last.simps split: sum.splits list.splits option.splits)
qed

lemma prefix_iff_take: "prefix p s \<longleftrightarrow> take (length p) s = p"
  by (metis append_eq_conv_conj prefix_def append_take_drop_id)

lemma find_map_Suc: "List.find P (map Suc xs) = map_option Suc (List.find (\<lambda>i. P (Suc i)) xs)"
  by (induction xs) auto

lemma upt_Suc_shift: "[0 ..< Suc (Suc n)] = 0 # map Suc [0 ..< Suc n]"
  by (simp add: upt_conv_Cons map_Suc_upt del: upt_Suc)

lemma js_replace_strip: "js_replace pat [] str = strip_first_occurrence pat str"
proof (induction str)
  case Nil
  then show ?case
    by (auto simp: strip_first_occurrence_def occurs_at_def)
next
  case (Cons c cs)
  have sh: "\<And>i. occurs_at pat (c # cs) (Suc i) = occurs_at pat cs i"
    by (simp add: occurs_at_def)
  have z: "occurs_at pat (c # cs) 0 = prefix pat (c # cs)"
    by (simp add: occurs_at_def prefix_iff_take)
  have "strip_first_occurrence pat (c # cs) =
          (if prefix pat (c # cs) then drop (length pat) (c # cs)
           else c # strip_first_occurrence pat cs)"
    unfolding strip_first_occurrence_def [of pat "c # cs"] length_Cons upt_Suc_shift
    by (simp add: z find_map_Suc sh strip_first_occurrence_def del: upt_Suc split: option.splits)
  then show ?case using Cons.IH by simp
qed

lemma ensureHttpPrefix_spec: "ensureHttpPrefix s = ensure_https s"
  by (simp add: ensureHttpPrefix_def ensure_https_def startsWith_def)

lemma ensureAtprotoPrefix_spec: "ensureAtprotoPrefix s = ensure_at s"
  by (simp add: ensureAtprotoPrefix_def ensure_at_def startsWith_def js_replace_strip)

section \<open>Signature verifier\<close>

text \<open>
  Claim C7. For every list of allowed did-keys, the empty one included, and every operation
  whose \<^verbatim>\<open>sig\<close> string ends with the character \<^verbatim>\<open>=\<close>, \<^verbatim>\<open>assureValidSig\<close> fails with
  \<^verbatim>\<open>InvalidSignatureError\<close> on that operation, for every instance of the libraries: also
  when the base64url decoder would throw on that signature, when the verifier would throw
  on a key, and when a key would verify it. The rejection therefore comes before any
  decoding and any verification. The second and third conjuncts show that the order is
  observable: on a signature that does not end in \<^verbatim>\<open>=\<close> the decoder's exception is the
  outcome when the decoder throws, and the verifier's exception when the verifier throws
  on the first key.
\<close>

theorem C7_padded_signature_rejected:
  "(sig x \<noteq> [] \<and> last (sig x) = CHR ''=''
      \<longrightarrow> assureValidSig L allowedDidKeys x = Inl (InvalidSignatureError x))
   \<and> (\<not> (sig x \<noteq> [] \<and> last (sig x) = CHR ''='') \<and> fromBase64Url L (sig x) = None
      \<longrightarrow> assureValidSig L allowedDidKeys x = Inl (Base64UrlError (sig x)))
   \<and> (\<not> (sig x \<noteq> [] \<and> last (sig x) = CHR ''='') \<and> fromBase64Url L (sig x) = Some sigBytes
        \<and> verifySigWithDidKey L k sigBytes (cbor_encode_unsigned L (opData x)) = None
      \<longrightarrow> assureValidSig L (k # rest) x = Inl (DidKeyError k))"
  by (simp add: assureValidSig_def endsWith_char)

text \<open>
  The padded signature \<^verbatim>\<open>AA=\<close> on which the sample decoder throws, with keys the sample
  verifier supports, with no key, with a key on which it throws, and in the instance where
  the signature would verify; and two signatures without padding, one that does not decode
  and one checked against an unsupported key.
\<close>

theorem C7_padded_signature_rejected_witness:
  "fromBase64Url sample_lib ''AA='' = None
   \<and> assureValidSig sample_lib [KR, KS] (Plc_tombstone (Some ''bG'') ''AA='')
       = Inl (InvalidSignatureError (Plc_tombstone (Some ''bG'') ''AA=''))
   \<and> assureValidSig sample_lib [] (Plc_tombstone (Some ''bG'') ''AA='')
       = Inl (InvalidSignatureError (Plc_tombstone (Some ''bG'') ''AA=''))
   \<and> verifySigWithDidKey sample_lib ''key'' ''AA='' ''d'' = None
   \<and> assureValidSig sample_lib [''key''] (Plc_tombstone (Some ''bG'') ''AA='')
       = Inl (InvalidSignatureError (Plc_tombstone (Some ''bG'') ''AA=''))
   \<and> firstValidKey trusting_lib ''AA=''
        (cbor_encode_unsigned trusting_lib (opData (Plc_tombstone (Some ''bG'') ''AA='')))
        [KR, KS] = Inr (Some KR)
   \<and> assureValidSig trusting_lib [KR, KS] (Plc_tombstone (Some ''bG'') ''AA='')
       = Inl (InvalidSignatureError (Plc_tombstone (Some ''bG'') ''AA=''))
   \<and> assureValidSig sample_lib [KR, KS] (Plc_tombstone (Some ''bG'') ''A=A'')
       = Inl (Base64UrlError ''A=A'')
   \<and> assureValidSig sample_lib [''key'', KR] (Plc_tombstone (Some ''bG'') ''AAA'')
       = Inl (DidKeyError ''key'')"
proof -
  let ?x = "Plc_tombstone (Some ''bG'') ''AA=''"
  have p: "sig ?x \<noteq> [] \<and> last (sig ?x) = CHR ''=''" by simp
  have d: "fromBase64Url sample_lib ''AA='' = None"
    "verifySigWithDidKey sample_lib ''key'' ''AA='' ''d'' = None"
    by (simp_all add: sample_lib_def startsWith_def)
  have t: "firstValidKey trusting_lib ''AA=''
        (cbor_encode_unsigned trusting_lib (opData ?x)) [KR, KS] = Inr (Some KR)"
    by (simp add: trusting_lib_def sample_lib_def)
  have u: "\<not> (sig (Plc_tombstone (Some ''bG'') ''A=A'') \<noteq> []
        \<and> last (sig (Plc_tombstone (Some ''bG'') ''A=A'')) = CHR ''='')
      \<and> fromBase64Url sample_lib (sig (Plc_tombstone (Some ''bG'') ''A=A'')) = None"
    by (simp add: sample_lib_def)
  have v: "\<not> (sig (Plc_tombstone (Some ''bG'') ''AAA'') \<noteq> []
        \<and> last (sig (Plc_tombstone (Some ''bG'') ''AAA'')) = CHR ''='')
      \<and> fromBase64Url sample_lib (sig (Plc_tombstone (Some ''bG'') ''AAA'')) = Some ''AAA''
      \<and> verifySigWithDidKey sample_lib ''key'' ''AAA''
           (cbor_encode_unsigned sample_lib (opData (Plc_tombstone (Some ''bG'') ''AAA''))) = None"
    by (simp add: sample_lib_def startsWith_def)
  note P = C7_padded_signature_rejected [THEN conjunct1, rule_format, OF p]
  have 1: "assureValidSig sample_lib [KR, KS] ?x = Inl (InvalidSignatureError ?x)"
    by (rule P)
  have 2: "assureValidSig sample_lib [] ?x = Inl (InvalidSignatureError ?x)"
    by (rule P)
  have 3: "assureValidSig sample_lib [''key''] ?x = Inl (InvalidSignatureError ?x)"
    by (rule P)
  have 4: "assureValidSig trusting_lib [KR, KS] ?x = Inl (InvalidSignatureError ?x)"
    by (rule P)
  have 5: "assureValidSig sample_lib [KR, KS] (Plc_tombstone (Some ''bG'') ''A=A'')
       = Inl (Base64UrlError ''A=A'')"
    using C7_padded_signature_rejected [THEN conjunct2, THEN conjunct1, rule_format, OF u]
    by simp
  have 6: "assureValidSig sample_lib [''key'', KR] (Plc_tombstone (Some ''bG'') ''AAA'')
       = Inl (DidKeyError ''key'')"
    using C7_padded_signature_rejected [THEN conjunct2, THEN conjunct2, rule_format, OF v]
    by simp
  from d t 1 2 3 4 5 6 show ?thesis by simp
qed

section \<open>Operation normalizer\<close>

text \<open>
  Claim C8. \<^verbatim>\<open>normalizeOp\<close> maps every v1 \<^verbatim>\<open>create\<close> operation to a
  \<^verbatim>\<open>plc_operation\<close> with \<^verbatim>\<open>verificationMethods = {atproto: signingKey}\<close>,
  \<^verbatim>\<open>rotationKeys = [recoveryKey, signingKey]\<close> in that order,
  \<^verbatim>\<open>alsoKnownAs = [ensure_at(handle)]\<close>, the single service \<^verbatim>\<open>atproto_pds\<close> of type
  \<^verbatim>\<open>AtprotoPersonalDataServer\<close> with endpoint \<^verbatim>\<open>ensure_https(service)\<close>, and
  \<^verbatim>\<open>prev\<close> and \<^verbatim>\<open>sig\<close> unchanged. Here \<open>ensure_https\<close> and \<open>ensure_at\<close> are the
  rules as the specification words them: unchanged on a string that already starts with
  the scheme, otherwise the scheme is prepended, for \<open>ensure_at\<close> after the first occurrence
  of \<^verbatim>\<open>http://\<close> and the first occurrence of \<^verbatim>\<open>https://\<close> have been cut out wherever
  they stand.
\<close>

theorem C8_normalize_create:
  "normalizeOp (Create sk rk h sv p s) =
     Inr (Plc_operation
            [(''atproto'', sk)]
            [rk, sk]
            [ensure_at h]
            [(''atproto_pds'',
              \<lparr>service_type = ''AtprotoPersonalDataServer'', endpoint = ensure_https sv\<rparr>)]
            p s)"
  by (simp add: ensureHttpPrefix_spec ensureAtprotoPrefix_spec)

text \<open>The legacy genesis of scenario S7, and the prefixing rules on a few strings.\<close>

theorem C8_normalize_create_witness:
  "normalizeOp (Create KS KR ''alice.example.com'' ''pds.example.com'' None ''c2ln'') =
     Inr (Plc_operation
            [(''atproto'', KS)]
            [KR, KS]
            [''at://alice.example.com'']
            [(''atproto_pds'',
              \<lparr>service_type = ''AtprotoPersonalDataServer'',
               endpoint = ''https://pds.example.com''\<rparr>)]
            None ''c2ln'')
   \<and> ensure_at ''at://a.test'' = ''at://a.test''
   \<and> ensure_at ''https://a.test'' = ''at://a.test''
   \<and> ensure_at ''x.http://a.test'' = ''at://x.a.test''
   \<and> ensure_at ''http://a.http://b'' = ''at://a.http://b''
   \<and> ensure_at ''http://https://a.test'' = ''at://a.test''
   \<and> ensure_https ''http://p.test'' = ''http://p.test''
   \<and> ensure_https ''https://p.test'' = ''https://p.test''"
  using C8_normalize_create [of KS KR "''alice.example.com''" "''pds.example.com''" None "''c2ln''"]
  by (simp add: ensure_at_def ensure_https_def strip_first_occurrence_def occurs_at_def)

lemmas sample_defs = sample_lib_def trusting_lib_def sample_sign_def sample_encode_unsigned_def
  sample_date_parse_def KR_def KS_def sample_services_def op_G_def op_A_def op_T_def op_B_def
  op_B_weak_def did_G_def ix_G_def ix_A_def ix_T_def ix_B_def ix_X_def opData_def
  op_A2_def ix_A2_def ix_A_strong_def ix_G_dup_def ix_B_weak_def ix_B_undecodable_def

lemmas eval_defs = assureValidNextOp_def assureValidCreationOp_def proposedPrev_def
  recoveryWindow_def assureValidSig_def didForCreateOp_def js_slice_def js_slice_from_def
  js_index_def indexOf_def startsWith_def endsWith_def suffix_to_prefix RECOVERY_WINDOW_def
  HOUR_def MINUTE_def SECOND_def validateOperationLog_def opToData_def js_minus_exact

lemma proposedPrev_Some:
  "proposedPrev L proposed = Inr (Some c) \<longleftrightarrow>
     (\<exists>s. prev (operation proposed) = Some s \<and> s \<noteq> [] \<and> cid_fromString L s = Some c)"
  by (auto simp: proposedPrev_def split: option.splits)

lemma proposedPrev_None:
  "proposedPrev L proposed = Inr None \<longleftrightarrow>
     (prev (operation proposed) = None \<or> prev (operation proposed) = Some [])"
  by (auto simp: proposedPrev_def split: option.splits)

lemma proposedPrev_error:
  "proposedPrev L proposed = Inl e \<longleftrightarrow>
     (\<exists>s. prev (operation proposed) = Some s \<and> s \<noteq> [] \<and> cid_fromString L s = None
        \<and> e = CidParseError s)"
  by (auto simp: proposedPrev_def split: option.splits)

lemma step_falsy_prev:
  "ops \<noteq> [] \<Longrightarrow> proposedPrev L proposed = Inr None
     \<Longrightarrow> assureValidNextOp L did ops proposed = Inl MisorderedOperationError"
  by (simp add: assureValidNextOp_def)

lemma step_parse_error:
  "ops \<noteq> [] \<Longrightarrow> proposedPrev L proposed = Inl e
     \<Longrightarrow> assureValidNextOp L did ops proposed = Inl e"
  by (simp add: assureValidNextOp_def)

lemma step_no_match:
  "ops \<noteq> [] \<Longrightarrow> proposedPrev L proposed = Inr (Some c)
     \<Longrightarrow> \<forall>x \<in> set ops. cid x \<noteq> cid_toString L c
     \<Longrightarrow> assureValidNextOp L did ops proposed = Inl MisorderedOperationError"
  using findIndex_neg_iff [of "\<lambda>x. cid_toString L c = cid x" ops]
  by (auto simp: assureValidNextOp_def Let_def)

lemma step_success_shape:
  assumes ne: "ops \<noteq> []"
    and pp: "proposedPrev L proposed = Inr (Some c)"
    and ok: "assureValidNextOp L did ops proposed = Inr r"
  shows "\<exists>i < length ops. cid (ops ! i) = cid_toString L c
           \<and> (\<forall>j < i. cid (ops ! j) \<noteq> cid_toString L c)
           \<and> new_ops r = take (Suc i) ops @ [proposed]
           \<and> nullified r = map cid (drop (Suc i) ops)
           \<and> new_prev r = Some c"
proof -
  let ?p = "\<lambda>x. cid_toString L c = cid x"
  have nn: "\<not> findIndex ?p ops < 0"
    using ok ne pp by (auto simp: assureValidNextOp_def Let_def)
  define i where "i = nat (findIndex ?p ops)"
  have ix: "findIndex ?p ops = int i"
    using nn by (simp add: i_def)
  from findIndex_first [OF ix]
  have i: "i < length ops" "cid (ops ! i) = cid_toString L c"
    "\<forall>j < i. cid (ops ! j) \<noteq> cid_toString L c"
    by auto
  have "new_ops r = take (Suc i) ops @ [proposed]
      \<and> nullified r = map cid (drop (Suc i) ops) \<and> new_prev r = Some c"
    using ok unfolding step_at [OF ne pp ix]
    by (auto split: if_splits sum.splits list.splits option.splits)
  with i show ?thesis by blast
qed

section \<open>Step validator: locating the referenced ancestor\<close>

text \<open>
  Claim C10. For every non-empty confirmed history and a proposed operation whose
  \<^verbatim>\<open>prev\<close> is a non-empty string that \<^verbatim>\<open>CID.fromString\<close> does not parse,
  \<^verbatim>\<open>assureValidNextOp\<close> fails with the parser's exception, which is none of the five typed
  validation errors; and when \<^verbatim>\<open>prev\<close> is a non-empty string that parses and the string
  form of the parsed CID is the \<^verbatim>\<open>cid\<close> of no confirmed operation, it fails with
  \<^verbatim>\<open>MisorderedOperationError\<close>. The parse comes before the search of the history.
\<close>

theorem C10_unparseable_prev:
  "(ops \<noteq> [] \<and> prev (operation proposed) = Some s \<and> s \<noteq> [] \<and> cid_fromString L s = None
      \<longrightarrow> assureValidNextOp L did ops proposed = Inl (CidParseError s)
          \<and> \<not> is_validation_error (CidParseError s))
   \<and> (ops \<noteq> [] \<and> prev (operation proposed) = Some s \<and> s \<noteq> [] \<and> cid_fromString L s = Some c
        \<and> (\<forall>x \<in> set ops. cid x \<noteq> cid_toString L c)
      \<longrightarrow> assureValidNextOp L did ops proposed = Inl MisorderedOperationError)"
proof (intro conjI impI)
  assume a: "ops \<noteq> [] \<and> prev (operation proposed) = Some s \<and> s \<noteq> [] \<and> cid_fromString L s = None"
  then have "proposedPrev L proposed = Inl (CidParseError s)"
    by (simp add: proposedPrev_error)
  with a show "assureValidNextOp L did ops proposed = Inl (CidParseError s)"
    by (simp add: step_parse_error)
  show "\<not> is_validation_error (CidParseError s)" by simp
next
  assume a: "ops \<noteq> [] \<and> prev (operation proposed) = Some s \<and> s \<noteq> [] \<and> cid_fromString L s = Some c
        \<and> (\<forall>x \<in> set ops. cid x \<noteq> cid_toString L c)"
  then have "proposedPrev L proposed = Inr (Some c)"
    by (simp add: proposedPrev_Some)
  with a show "assureValidNextOp L did ops proposed = Inl MisorderedOperationError"
    by (simp add: step_no_match)
qed

text \<open>A \<^verbatim>\<open>prev\<close> without the multibase prefix, and one that parses and matches nothing.\<close>

theorem C10_unparseable_prev_witness:
  "assureValidNextOp sample_lib did_G [ix_G] (ix_X (Some ''zzz'')) = Inl (CidParseError ''zzz'')
   \<and> \<not> is_validation_error (CidParseError ''zzz'')
   \<and> assureValidNextOp sample_lib did_G [ix_G] (ix_X (Some ''bZ'')) = Inl MisorderedOperationError"
proof -
  have h1: "[ix_G] \<noteq> [] \<and> prev (operation (ix_X (Some ''zzz''))) = Some ''zzz'' \<and> ''zzz'' \<noteq> []
      \<and> cid_fromString sample_lib ''zzz'' = None"
    by (simp add: sample_defs startsWith_def)
  have h2: "[ix_G] \<noteq> [] \<and> prev (operation (ix_X (Some ''bZ''))) = Some ''bZ'' \<and> ''bZ'' \<noteq> []
      \<and> cid_fromString sample_lib ''bZ'' = Some ''bZ''
      \<and> (\<forall>x \<in> set [ix_G]. cid x \<noteq> cid_toString sample_lib ''bZ'')"
    by (simp add: sample_defs startsWith_def)
  show ?thesis
    using C10_unparseable_prev [where ops = "[ix_G]" and proposed = "ix_X (Some ''zzz'')"
        and s = "''zzz''" and L = sample_lib and did = did_G] h1
      C10_unparseable_prev [where ops = "[ix_G]" and proposed = "ix_X (Some ''bZ'')"
        and s = "''bZ''" and c = "''bZ''" and L = sample_lib and did = did_G] h2
    by blast
qed

text \<open>
  Claim C9, as amended. For every non-empty confirmed history, \<^verbatim>\<open>assureValidNextOp\<close> fails
  with \<^verbatim>\<open>MisorderedOperationError\<close> when the proposed operation's \<^verbatim>\<open>prev\<close> is
  \<^verbatim>\<open>null\<close> (or the empty string, which is falsy too); it fails with
  \<^verbatim>\<open>MisorderedOperationError\<close> when \<^verbatim>\<open>prev\<close> parses as a CID and no confirmed operation
  has a \<^verbatim>\<open>cid\<close> equal to the string form of the parsed CID; and on success the first
  matching index \<open>i\<close> is the one used: the new history is the confirmed operations up to and
  including \<open>i\<close> followed by the proposed one, and the nullified CIDs are those after \<open>i\<close>.
\<close>

theorem C9_misordered_prev:
  "(ops \<noteq> [] \<and> (prev (operation proposed) = None \<or> prev (operation proposed) = Some '''')
      \<longrightarrow> assureValidNextOp L did ops proposed = Inl MisorderedOperationError)
   \<and> (ops \<noteq> [] \<and> prev (operation proposed) = Some s \<and> s \<noteq> [] \<and> cid_fromString L s = Some c
        \<and> (\<forall>x \<in> set ops. cid x \<noteq> cid_toString L c)
      \<longrightarrow> assureValidNextOp L did ops proposed = Inl MisorderedOperationError)
   \<and> (ops \<noteq> [] \<and> prev (operation proposed) = Some s \<and> s \<noteq> [] \<and> cid_fromString L s = Some c
        \<and> assureValidNextOp L did ops proposed = Inr r
      \<longrightarrow> (\<exists>i < length ops. cid (ops ! i) = cid_toString L c
             \<and> (\<forall>j < i. cid (ops ! j) \<noteq> cid_toString L c)
             \<and> new_ops r = take (Suc i) ops @ [proposed]
             \<and> nullified r = map cid (drop (Suc i) ops)
             \<and> new_prev r = Some c))"
proof (intro conjI impI)
  assume a: "ops \<noteq> [] \<and> (prev (operation proposed) = None \<or> prev (operation proposed) = Some '''')"
  then have "proposedPrev L proposed = Inr None"
    by (simp add: proposedPrev_None)
  with a show "assureValidNextOp L did ops proposed = Inl MisorderedOperationError"
    by (simp add: step_falsy_prev)
next
  assume a: "ops \<noteq> [] \<and> prev (operation proposed) = Some s \<and> s \<noteq> [] \<and> cid_fromString L s = Some c
        \<and> (\<forall>x \<in> set ops. cid x \<noteq> cid_toString L c)"
  then have "proposedPrev L proposed = Inr (Some c)"
    by (simp add: proposedPrev_Some)
  with a show "assureValidNextOp L did ops proposed = Inl MisorderedOperationError"
    by (simp add: step_no_match)
next
  assume a: "ops \<noteq> [] \<and> prev (operation proposed) = Some s \<and> s \<noteq> [] \<and> cid_fromString L s = Some c
        \<and> assureValidNextOp L did ops proposed = Inr r"
  then have "proposedPrev L proposed = Inr (Some c)"
    by (simp add: proposedPrev_Some)
  with a show "\<exists>i < length ops. cid (ops ! i) = cid_toString L c
             \<and> (\<forall>j < i. cid (ops ! j) \<noteq> cid_toString L c)
             \<and> new_ops r = take (Suc i) ops @ [proposed]
             \<and> nullified r = map cid (drop (Suc i) ops)
             \<and> new_prev r = Some c"
    using step_success_shape [of ops L proposed c did r] by simp
qed

text \<open>
  A null, an empty and an unmatched \<^verbatim>\<open>prev\<close>; and a history in which the CID of the
  genesis stands at the indices 0 and 2, where index 0 is the one used.
\<close>

theorem C9_misordered_prev_witness:
  "assureValidNextOp sample_lib did_G [ix_G] (ix_X None) = Inl MisorderedOperationError
   \<and> assureValidNextOp sample_lib did_G [ix_G] (ix_X (Some '''')) = Inl MisorderedOperationError
   \<and> assureValidNextOp sample_lib did_G [ix_G] (ix_X (Some ''bZ'')) = Inl MisorderedOperationError
   \<and> assureValidNextOp sample_lib did_G [ix_G, ix_A ''2024-01-01T00:00:00.000Z'', ix_G] (ix_B ''2024-01-02T00:00:00.000Z'')
       = Inr \<lparr>nullified = [''bA'', ''bG''], new_prev = Some ''bG'',
              new_ops = [ix_G, ix_B ''2024-01-02T00:00:00.000Z'']\<rparr>"
proof -
  have h1: "[ix_G] \<noteq> [] \<and> (prev (operation (ix_X None)) = None
      \<or> prev (operation (ix_X None)) = Some '''')"
    by (simp add: ix_X_def sample_sign_def)
  have h2: "[ix_G] \<noteq> [] \<and> (prev (operation (ix_X (Some ''''))) = None
      \<or> prev (operation (ix_X (Some ''''))) = Some '''')"
    by (simp add: ix_X_def sample_sign_def)
  have h3: "[ix_G] \<noteq> [] \<and> prev (operation (ix_X (Some ''bZ''))) = Some ''bZ'' \<and> ''bZ'' \<noteq> []
      \<and> cid_fromString sample_lib ''bZ'' = Some ''bZ''
      \<and> (\<forall>x \<in> set [ix_G]. cid x \<noteq> cid_toString sample_lib ''bZ'')"
    by (simp add: sample_defs startsWith_def)
  have 4: "assureValidNextOp sample_lib did_G [ix_G, ix_A ''2024-01-01T00:00:00.000Z'', ix_G] (ix_B ''2024-01-02T00:00:00.000Z'')
       = Inr \<lparr>nullified = [''bA'', ''bG''], new_prev = Some ''bG'',
              new_ops = [ix_G, ix_B ''2024-01-02T00:00:00.000Z'']\<rparr>"
    by (simp add: eval_defs sample_defs)
  show ?thesis
    using C9_misordered_prev [where ops = "[ix_G]" and proposed = "ix_X None" and L = sample_lib
        and did = did_G] h1
      C9_misordered_prev [where ops = "[ix_G]" and proposed = "ix_X (Some '''')"
        and L = sample_lib and did = did_G] h2
      C9_misordered_prev [where ops = "[ix_G]" and proposed = "ix_X (Some ''bZ'')"
        and s = "''bZ''" and c = "''bZ''" and L = sample_lib and did = did_G] h3
      4
    by blast
qed

text \<open>
  The claim as stated fails: the proposed \<^verbatim>\<open>prev\<close> below is the \<^verbatim>\<open>cid\<close> of no
  confirmed operation, and the step fails with the parser's exception, not with
  \<^verbatim>\<open>MisorderedOperationError\<close>.
\<close>

theorem C9_unparseable_prev_counterexample:
  "cid ix_G \<noteq> ''zzz''
   \<and> prev (operation (ix_X (Some ''zzz''))) = Some ''zzz''
   \<and> assureValidNextOp sample_lib did_G [ix_G] (ix_X (Some ''zzz'')) = Inl (CidParseError ''zzz'')
   \<and> assureValidNextOp sample_lib did_G [ix_G] (ix_X (Some ''zzz''))
        \<noteq> Inl MisorderedOperationError"
  by (simp add: eval_defs sample_defs)

lemma findIndex_eqI:
  assumes "i < length xs" "p (xs ! i)" "\<forall>j < i. \<not> p (xs ! j)"
  shows "findIndex p xs = int i"
proof -
  have "\<not> findIndex p xs < 0"
    using assms(1,2) findIndex_neg_iff [of p xs] nth_mem by blast
  then obtain k where k: "findIndex p xs = int k"
    using findIndex_nat by blast
  from findIndex_first [OF k] assms have "k = i"
    by (meson linorder_neqE_nat)
  with k show ?thesis by simp
qed

lemma references_step:
  assumes "references L ops proposed pp i"
  shows "ops \<noteq> []" and "proposedPrev L proposed = Inr (Some pp)"
    and "findIndex (\<lambda>x. cid_toString L pp = cid x) ops = int i"
proof -
  from assms show "ops \<noteq> []" by (auto simp: references_def)
  from assms show "proposedPrev L proposed = Inr (Some pp)"
    by (simp add: references_def proposedPrev_Some)
  from assms show "findIndex (\<lambda>x. cid_toString L pp = cid x) ops = int i"
    by (intro findIndex_eqI) (auto simp: references_def)
qed

lemma normalizeOp_not_tombstone: "normalizeOp x = Inr n \<Longrightarrow> \<not> is_plc_tombstone x"
  by (cases x) auto

lemma indexOf_more_powerful:
  assumes "signer \<in> set keys"
  shows "js_slice keys 0 (indexOf keys signer) = more_powerful keys signer"
proof -
  have "indexOf keys signer = int (length (takeWhile (\<lambda>k. k \<noteq> signer) keys))"
    unfolding indexOf_def using findIndex_eq_takeWhile [of keys "\<lambda>x. x = signer"] assms by simp
  then show ?thesis
    by (simp add: js_slice_take more_powerful_def takeWhile_eq_take [symmetric])
qed

lemma step_nullify:
  assumes ref: "references L ops proposed pp i"
    and tail: "Suc i < length ops"
    and norm: "normalizeOp (operation (ops ! i)) = Inr n"
  shows "assureValidNextOp L did ops proposed =
     (case assureValidSig L (rotationKeys n) (operation (ops ! Suc i)) of
        Inl e \<Rightarrow> Inl e
      | Inr signer \<Rightarrow>
         (case assureValidSig L (more_powerful (rotationKeys n) signer) (operation proposed) of
            Inl e \<Rightarrow> Inl e
          | Inr _ \<Rightarrow>
             (case recoveryWindow L (drop (Suc i) ops) proposed (ops ! Suc i) of
                Some e \<Rightarrow> Inl e
              | None \<Rightarrow>
                 Inr \<lparr>nullified = map cid (drop (Suc i) ops), new_prev = Some pp,
                      new_ops = take (Suc i) ops @ [proposed]\<rparr>)))"
proof -
  have d: "drop (Suc i) ops = ops ! Suc i # drop (Suc (Suc i)) ops"
    using tail by (simp add: Cons_nth_drop_Suc)
  have mp: "\<And>signer. assureValidSig L (rotationKeys n) (operation (ops ! Suc i)) = Inr signer
      \<Longrightarrow> js_slice (rotationKeys n) 0 (indexOf (rotationKeys n) signer)
          = more_powerful (rotationKeys n) signer"
    by (rule indexOf_more_powerful) (rule assureValidSig_mem)
  show ?thesis
    unfolding step_at [OF references_step [OF ref]]
    using normalizeOp_not_tombstone [OF norm]
    by (simp add: norm d mp split: sum.splits)
qed

lemma step_tombstone_head:
  assumes ref: "references L ops proposed pp i"
    and tomb: "is_plc_tombstone (operation (ops ! i))"
  shows "assureValidNextOp L did ops proposed = Inl MisorderedOperationError"
  unfolding step_at [OF references_step [OF ref]] using tomb by simp

section \<open>Step validator: the recovery window\<close>

text \<open>
  Claim C2. Whenever the step performs a nullification (the proposed \<^verbatim>\<open>prev\<close> references
  the confirmed operation at the first matching index \<open>i\<close>, operations stand after it, the
  signature check of the first of them under the head's rotation keys returns the disputed
  signer, and the signature check of the proposed operation under the strictly more
  powerful keys returns), it fails with \<^verbatim>\<open>LateRecoveryError d\<close> if and only if both
  timestamps parse, the parsed \<^verbatim>\<open>createdAt\<close> of the proposed operation minus that of the
  first nullified operation \<open>ops ! Suc i\<close> is strictly more than \<open>72 * 3600 * 1000\<close>
  milliseconds, and \<open>d\<close> is that difference as JavaScript computes it, \<open>js_minus a b\<close>:
  the exact difference whenever its magnitude is at most \<open>2 ^ 53\<close>, and the nearest double
  beyond. When the difference is at most the bound (exactly 72 hours, or negative), or a
  timestamp does not parse, the step succeeds with the nullified CIDs and the shortened
  history.
\<close>

theorem C2_recovery_window:
  assumes "references L ops proposed pp i"
    and "Suc i < length ops"
    and "normalizeOp (operation (ops ! i)) = Inr n"
    and "assureValidSig L (rotationKeys n) (operation (ops ! Suc i)) = Inr signer"
    and "assureValidSig L (more_powerful (rotationKeys n) signer) (operation proposed) = Inr k"
  shows "(assureValidNextOp L did ops proposed = Inl (LateRecoveryError d) \<longleftrightarrow>
            (\<exists>a b. date_parse L (createdAt proposed) = Some a
                 \<and> date_parse L (createdAt (ops ! Suc i)) = Some b
                 \<and> d = js_minus a b \<and> a - b > 72 * 3600 * 1000))
       \<and> (\<forall>a b. \<bar>a - b\<bar> \<le> 2 ^ 53 \<longrightarrow> js_minus a b = a - b)
       \<and> ((\<forall>a b. date_parse L (createdAt proposed) = Some a
                 \<and> date_parse L (createdAt (ops ! Suc i)) = Some b
               \<longrightarrow> a - b \<le> 72 * 3600 * 1000)
            \<longrightarrow> assureValidNextOp L did ops proposed =
                  Inr \<lparr>nullified = map cid (drop (Suc i) ops), new_prev = Some pp,
                       new_ops = take (Suc i) ops @ [proposed]\<rparr>)"
proof -
  have w: "RECOVERY_WINDOW = 259200000"
    by (simp add: RECOVERY_WINDOW_def HOUR_def MINUTE_def SECOND_def)
  have gt: "\<And>a b. 259200000 < js_minus a b \<longleftrightarrow> 259200000 < a - b"
    by (rule js_minus_gt_iff) simp_all
  have len: "length (drop (Suc i) ops) > 0"
    using assms(2) by simp
  have st: "assureValidNextOp L did ops proposed =
     (case recoveryWindow L (drop (Suc i) ops) proposed (ops ! Suc i) of
        Some e \<Rightarrow> Inl e
      | None \<Rightarrow>
         Inr \<lparr>nullified = map cid (drop (Suc i) ops), new_prev = Some pp,
              new_ops = take (Suc i) ops @ [proposed]\<rparr>)"
    by (simp add: step_nullify [OF assms(1,2,3)] assms(4,5))
  have 1: "assureValidNextOp L did ops proposed = Inl (LateRecoveryError d) \<longleftrightarrow>
            (\<exists>a b. date_parse L (createdAt proposed) = Some a
                 \<and> date_parse L (createdAt (ops ! Suc i)) = Some b
                 \<and> d = js_minus a b \<and> a - b > 72 * 3600 * 1000)"
    unfolding st recoveryWindow_def w using len
    by (auto simp: Let_def gt split: option.splits)
  have 2: "\<forall>a b :: int. \<bar>a - b\<bar> \<le> 2 ^ 53 \<longrightarrow> js_minus a b = a - b"
    by (simp add: js_minus_exact)
  have 3: "(\<forall>a b. date_parse L (createdAt proposed) = Some a
                 \<and> date_parse L (createdAt (ops ! Suc i)) = Some b
               \<longrightarrow> a - b \<le> 72 * 3600 * 1000)
            \<longrightarrow> assureValidNextOp L did ops proposed =
                  Inr \<lparr>nullified = map cid (drop (Suc i) ops), new_prev = Some pp,
                       new_ops = take (Suc i) ops @ [proposed]\<rparr>"
    unfolding st recoveryWindow_def w using len
    by (auto simp: Let_def gt split: option.splits)
  from 1 2 3 show ?thesis by blast
qed

text \<open>
  With \<open>A\<close> created on 1 January and \<open>A2\<close> on 2 January, a fork created 72 hours and one
  millisecond after \<open>A\<close> is late, although it is within 72 hours of \<open>A2\<close>; a fork exactly
  72 hours after \<open>A\<close> is accepted; a fork dated a day before \<open>A\<close> is accepted; and between
  the two ends of the range of time values, whose exact difference is the odd number
  17279999999999999, the payload is the double 17280000000000000.
\<close>

theorem C2_recovery_window_witness:
  "assureValidNextOp sample_lib did_G
      [ix_G, ix_A ''2024-01-01T00:00:00.000Z'', ix_A2 ''2024-01-02T00:00:00.000Z'']
      (ix_B ''2024-01-04T00:00:00.001Z'')
     = Inl (LateRecoveryError 259200001)
   \<and> assureValidNextOp sample_lib did_G [ix_G, ix_A ''2024-01-01T00:00:00.000Z'']
      (ix_B ''2024-01-04T00:00:00.000Z'')
     = Inr \<lparr>nullified = [''bA''], new_prev = Some ''bG'',
            new_ops = [ix_G, ix_B ''2024-01-04T00:00:00.000Z'']\<rparr>
   \<and> assureValidNextOp sample_lib did_G [ix_G, ix_A ''2024-01-02T00:00:00.000Z'']
      (ix_B ''2024-01-01T00:00:00.000Z'')
     = Inr \<lparr>nullified = [''bA''], new_prev = Some ''bG'',
            new_ops = [ix_G, ix_B ''2024-01-01T00:00:00.000Z'']\<rparr>
   \<and> 8640000000000000 - (- 8639999999999999) = (17279999999999999 :: int)
   \<and> assureValidNextOp sample_lib did_G [ix_G, ix_A ''-271821-04-20T00:00:00.001Z'']
      (ix_B ''+275760-09-13T00:00:00.000Z'')
     = Inl (LateRecoveryError 17280000000000000)"
proof -
  have ref: "\<And>rest t. references sample_lib (ix_G # rest) (ix_B t) ''bG'' 0"
    by (simp add: references_def sample_defs startsWith_def)
  have norm: "\<And>rest. normalizeOp (operation ((ix_G # rest) ! 0)) = Inr op_G"
    by (simp add: sample_defs)
  have len: "\<And>a b rest. Suc 0 < length (a # b # rest :: indexed_operation list)" by simp
  have s1: "\<And>t rest. assureValidSig sample_lib (rotationKeys op_G)
              (operation ((ix_G # (ix_A t # rest)) ! Suc 0)) = Inr KS"
    by (simp add: assureValidSig_def endsWith_def startsWith_def suffix_to_prefix sample_defs)
  have s2: "\<And>t. assureValidSig sample_lib (more_powerful (rotationKeys op_G) KS)
              (operation (ix_B t)) = Inr KR"
    by (simp add: assureValidSig_def more_powerful_def endsWith_def startsWith_def
        suffix_to_prefix sample_defs)
  have t: "date_parse sample_lib ''2024-01-01T00:00:00.000Z'' = Some 1704067200000"
    "date_parse sample_lib ''2024-01-02T00:00:00.000Z'' = Some 1704153600000"
    "date_parse sample_lib ''2024-01-04T00:00:00.000Z'' = Some 1704326400000"
    "date_parse sample_lib ''2024-01-04T00:00:00.001Z'' = Some 1704326400001"
    "date_parse sample_lib ''-271821-04-20T00:00:00.001Z'' = Some (- 8639999999999999)"
    "date_parse sample_lib ''+275760-09-13T00:00:00.000Z'' = Some 8640000000000000"
    by (simp_all add: sample_lib_def sample_date_parse_def)
  have c: "\<And>t. createdAt (ix_B t) = t" "\<And>t. createdAt (ix_A t) = t" "\<And>t. cid (ix_A t) = ''bA''"
    by (simp_all add: ix_B_def ix_A_def)
  have big: "js_minus 8640000000000000 (- 8639999999999999) = 17280000000000000"
  proof -
    have "bit_length (nat \<bar>17279999999999999\<bar>) = Suc 53"
      by (rule bit_length_eq) simp_all
    then have k: "bit_length (nat \<bar>17279999999999999\<bar>) - 53 = 1" by simp
    have "round_double 17279999999999999 = 17280000000000000"
      unfolding round_double_def Let_def k by simp
    then show ?thesis by (simp add: js_minus_def)
  qed
  have late: "assureValidNextOp sample_lib did_G
      [ix_G, ix_A ''2024-01-01T00:00:00.000Z'', ix_A2 ''2024-01-02T00:00:00.000Z'']
      (ix_B ''2024-01-04T00:00:00.001Z'')
     = Inl (LateRecoveryError 259200001)"
    using C2_recovery_window [where did = did_G and d = 259200001, OF ref len norm
        s1 [of "''2024-01-01T00:00:00.000Z''" "[ix_A2 ''2024-01-02T00:00:00.000Z'']"]
        s2 [of "''2024-01-04T00:00:00.001Z''"]]
    by (simp add: t c js_minus_exact)
  have exact: "assureValidNextOp sample_lib did_G [ix_G, ix_A ''2024-01-01T00:00:00.000Z'']
      (ix_B ''2024-01-04T00:00:00.000Z'')
     = Inr \<lparr>nullified = [''bA''], new_prev = Some ''bG'',
            new_ops = [ix_G, ix_B ''2024-01-04T00:00:00.000Z'']\<rparr>"
    using C2_recovery_window [where did = did_G and d = 0, OF ref len norm
        s1 [of "''2024-01-01T00:00:00.000Z''" "[]"]
        s2 [of "''2024-01-04T00:00:00.000Z''"]]
    by (simp add: t c)
  have negative: "assureValidNextOp sample_lib did_G [ix_G, ix_A ''2024-01-02T00:00:00.000Z'']
      (ix_B ''2024-01-01T00:00:00.000Z'')
     = Inr \<lparr>nullified = [''bA''], new_prev = Some ''bG'',
            new_ops = [ix_G, ix_B ''2024-01-01T00:00:00.000Z'']\<rparr>"
    using C2_recovery_window [where did = did_G and d = 0, OF ref len norm
        s1 [of "''2024-01-02T00:00:00.000Z''" "[]"]
        s2 [of "''2024-01-01T00:00:00.000Z''"]]
    by (simp add: t c)
  have rounded: "assureValidNextOp sample_lib did_G [ix_G, ix_A ''-271821-04-20T00:00:00.001Z'']
      (ix_B ''+275760-09-13T00:00:00.000Z'')
     = Inl (LateRecoveryError 17280000000000000)"
    using C2_recovery_window [where did = did_G and d = 17280000000000000, OF ref len norm
        s1 [of "''-271821-04-20T00:00:00.001Z''" "[]"]
        s2 [of "''+275760-09-13T00:00:00.000Z''"]]
    by (simp add: t c big)
  from late exact negative rounded show ?thesis by simp
qed

lemma length_takeWhile_less_mem:
  "x \<in> set xs \<Longrightarrow> length (takeWhile (\<lambda>k. k \<noteq> x) xs) < length xs"
  by (induction xs) auto

lemma sig_refused_not_verifies: "sig_refused L k x \<Longrightarrow> \<not> sig_verifies L k x"
  by (auto simp: sig_refused_def sig_verifies_def split: option.splits)

section \<open>Step validator: rotation-key power\<close>

text \<open>
  Claim C1, as amended. Let the proposed \<^verbatim>\<open>prev\<close> reference the confirmed operation at the
  first matching index \<open>i\<close>, with operations after it (\<open>Suc i < length ops\<close>), and let the
  head \<open>ops ! i\<close> normalize to \<open>n\<close> (it is not a tombstone), so that its rotation keys
  exist. Then the step first checks the signature of the first nullified operation
  \<open>ops ! Suc i\<close> under the head's rotation keys: when that check fails, the step fails with
  its error, whatever the proposed signature is. When it returns the disputed signer, which
  is the first key of the list that verifies the first nullified operation,
  \<open>power_index\<close> is the first index of that did-key in the list (with duplicate entries the
  lowest), and the step accepts the proposed operation only if its signature verifies
  under a key at an index below \<open>power_index\<close>. The step fails with
  \<^verbatim>\<open>InvalidSignatureError\<close> on the proposed operation when the proposed signature ends in
  \<^verbatim>\<open>=\<close>, or when it decodes and \<open>power_index\<close> is 0 or the verifier returns false for
  every key below \<open>power_index\<close>. When the proposed signature does not end in \<^verbatim>\<open>=\<close> and
  the decoder throws on it, the step fails with the decoder's exception; when the verifier
  throws on a key below \<open>power_index\<close> after returning false for the keys before it, the
  step fails with the verifier's exception.
\<close>

theorem C1_nullification_power:
  assumes "references L ops proposed pp i"
    and "Suc i < length ops"
    and "normalizeOp (operation (ops ! i)) = Inr n"
  shows "(\<forall>e. assureValidSig L (rotationKeys n) (operation (ops ! Suc i)) = Inl e
            \<longrightarrow> assureValidNextOp L did ops proposed = Inl e)
       \<and> (\<forall>signer. assureValidSig L (rotationKeys n) (operation (ops ! Suc i)) = Inr signer \<longrightarrow>
            (let keys = rotationKeys n;
                 power_index = length (takeWhile (\<lambda>k. k \<noteq> signer) keys)
             in power_index < length keys \<and> keys ! power_index = signer
                \<and> (\<forall>j < power_index. keys ! j \<noteq> signer)
                \<and> sig_verifies L signer (operation (ops ! Suc i))
                \<and> (\<forall>j < power_index. sig_refused L (keys ! j) (operation (ops ! Suc i)))
                \<and> (\<forall>r. assureValidNextOp L did ops proposed = Inr r
                      \<longrightarrow> (\<exists>j < power_index. sig_verifies L (keys ! j) (operation proposed)))
                \<and> (endsWith (sig (operation proposed)) ''=''
                      \<or> (fromBase64Url L (sig (operation proposed)) \<noteq> None
                          \<and> (power_index = 0
                              \<or> (\<forall>j < power_index.
                                    sig_refused L (keys ! j) (operation proposed))))
                    \<longrightarrow> assureValidNextOp L did ops proposed
                          = Inl (InvalidSignatureError (operation proposed)))
                \<and> (\<not> endsWith (sig (operation proposed)) ''=''
                      \<and> fromBase64Url L (sig (operation proposed)) = None
                    \<longrightarrow> assureValidNextOp L did ops proposed
                          = Inl (Base64UrlError (sig (operation proposed))))
                \<and> (\<forall>sigBytes j. \<not> endsWith (sig (operation proposed)) ''=''
                      \<and> fromBase64Url L (sig (operation proposed)) = Some sigBytes
                      \<and> j < power_index
                      \<and> verifySigWithDidKey L (keys ! j) sigBytes
                           (cbor_encode_unsigned L (opData (operation proposed))) = None
                      \<and> (\<forall>j' < j. sig_refused L (keys ! j') (operation proposed))
                    \<longrightarrow> assureValidNextOp L did ops proposed = Inl (DidKeyError (keys ! j)))))"
proof (intro conjI allI impI)
  fix e
  assume "assureValidSig L (rotationKeys n) (operation (ops ! Suc i)) = Inl e"
  then show "assureValidNextOp L did ops proposed = Inl e"
    by (simp add: step_nullify [OF assms])
next
  fix signer
  assume sg: "assureValidSig L (rotationKeys n) (operation (ops ! Suc i)) = Inr signer"
  define keys where "keys = rotationKeys n"
  define m where "m = length (takeWhile (\<lambda>k. k \<noteq> signer) keys)"
  let ?fn = "operation (ops ! Suc i)"
  let ?p = "operation proposed"
  from sg obtain a where a: "a < length keys" "keys ! a = signer" "sig_verifies L signer ?fn"
    "\<forall>j < a. sig_refused L (keys ! j) ?fn"
    unfolding keys_def [symmetric] assureValidSig_Inr by blast
  have mem: "signer \<in> set keys" using a by auto
  have m1: "m < length keys"
    unfolding m_def using mem by (rule length_takeWhile_less_mem)
  have m2: "keys ! m = signer"
    using nth_length_takeWhile [of "\<lambda>k. k \<noteq> signer" keys] m1 unfolding m_def by simp
  have m3: "\<forall>j < m. keys ! j \<noteq> signer"
    unfolding m_def using takeWhile_nth [of _ "\<lambda>k. k \<noteq> signer" keys]
      nth_mem set_takeWhileD by (metis (mono_tags, lifting))
  have ma: "m = a"
  proof (rule ccontr)
    assume "m \<noteq> a"
    then consider "m < a" | "a < m" by linarith
    then show False
    proof cases
      case 1
      with a(4) have "sig_refused L (keys ! m) ?fn" by simp
      with m2 a(3) sig_refused_not_verifies show False by blast
    next
      case 2
      with m3 a(2) show False by blast
    qed
  qed
  have mp: "more_powerful keys signer = take m keys"
    by (simp add: more_powerful_def m_def takeWhile_eq_take [symmetric])
  have st: "assureValidNextOp L did ops proposed =
         (case assureValidSig L (take m keys) ?p of
            Inl e \<Rightarrow> Inl e
          | Inr _ \<Rightarrow>
             (case recoveryWindow L (drop (Suc i) ops) proposed (ops ! Suc i) of
                Some e \<Rightarrow> Inl e
              | None \<Rightarrow>
                 Inr \<lparr>nullified = map cid (drop (Suc i) ops), new_prev = Some pp,
                      new_ops = take (Suc i) ops @ [proposed]\<rparr>))"
    using sg by (simp add: step_nullify [OF assms] keys_def [symmetric] mp)
  have acc: "\<forall>r. assureValidNextOp L did ops proposed = Inr r
                      \<longrightarrow> (\<exists>j < m. sig_verifies L (keys ! j) ?p)"
  proof (intro allI impI)
    fix r
    assume "assureValidNextOp L did ops proposed = Inr r"
    then obtain k where "assureValidSig L (take m keys) ?p = Inr k"
      unfolding st by (auto split: sum.splits)
    then obtain j where "j < length (take m keys)" "take m keys ! j = k" "sig_verifies L k ?p"
      unfolding assureValidSig_Inr by blast
    then show "\<exists>j < m. sig_verifies L (keys ! j) ?p" by auto
  qed
  have rej: "endsWith (sig ?p) ''=''
      \<or> (fromBase64Url L (sig ?p) \<noteq> None
          \<and> (m = 0 \<or> (\<forall>j < m. sig_refused L (keys ! j) ?p)))
     \<longrightarrow> assureValidNextOp L did ops proposed = Inl (InvalidSignatureError ?p)"
  proof
    assume h: "endsWith (sig ?p) ''=''
      \<or> (fromBase64Url L (sig ?p) \<noteq> None
          \<and> (m = 0 \<or> (\<forall>j < m. sig_refused L (keys ! j) ?p)))"
    have "assureValidSig L (take m keys) ?p = Inl (InvalidSignatureError ?p)"
    proof (cases "endsWith (sig ?p) ''=''")
      case True
      then show ?thesis by (rule assureValidSig_padded)
    next
      case False
      with h have dec: "fromBase64Url L (sig ?p) \<noteq> None"
        and r: "m = 0 \<or> (\<forall>j < m. sig_refused L (keys ! j) ?p)" by auto
      have "\<forall>k \<in> set (take m keys). sig_refused L k ?p"
      proof
        fix k
        assume "k \<in> set (take m keys)"
        then obtain j where "j < length (take m keys)" "take m keys ! j = k"
          by (auto simp: in_set_conv_nth)
        with r show "sig_refused L k ?p" by auto
      qed
      with False dec show ?thesis by (rule assureValidSig_all_refused)
    qed
    then show "assureValidNextOp L did ops proposed = Inl (InvalidSignatureError ?p)"
      unfolding st by simp
  qed
  have und: "\<not> endsWith (sig ?p) ''='' \<and> fromBase64Url L (sig ?p) = None
     \<longrightarrow> assureValidNextOp L did ops proposed = Inl (Base64UrlError (sig ?p))"
    unfolding st by (simp add: assureValidSig_undecodable)
  have thr: "\<forall>sigBytes j. \<not> endsWith (sig ?p) ''=''
        \<and> fromBase64Url L (sig ?p) = Some sigBytes \<and> j < m
        \<and> verifySigWithDidKey L (keys ! j) sigBytes (cbor_encode_unsigned L (opData ?p)) = None
        \<and> (\<forall>j' < j. sig_refused L (keys ! j') ?p)
      \<longrightarrow> assureValidNextOp L did ops proposed = Inl (DidKeyError (keys ! j))"
  proof (intro allI impI)
    fix sigBytes j
    assume h: "\<not> endsWith (sig ?p) ''=''
        \<and> fromBase64Url L (sig ?p) = Some sigBytes \<and> j < m
        \<and> verifySigWithDidKey L (keys ! j) sigBytes (cbor_encode_unsigned L (opData ?p)) = None
        \<and> (\<forall>j' < j. sig_refused L (keys ! j') ?p)"
    then have j: "j < length (take m keys)" using m1 by simp
    have "assureValidSig L (take m keys) ?p = Inl (DidKeyError (take m keys ! j))"
      using h j by (intro assureValidSig_verifier_throws [where sb = sigBytes]) auto
    with h show "assureValidNextOp L did ops proposed = Inl (DidKeyError (keys ! j))"
      unfolding st by simp
  qed
  show "let keys = rotationKeys n;
                 power_index = length (takeWhile (\<lambda>k. k \<noteq> signer) keys)
             in power_index < length keys \<and> keys ! power_index = signer
                \<and> (\<forall>j < power_index. keys ! j \<noteq> signer)
                \<and> sig_verifies L signer (operation (ops ! Suc i))
                \<and> (\<forall>j < power_index. sig_refused L (keys ! j) (operation (ops ! Suc i)))
                \<and> (\<forall>r. assureValidNextOp L did ops proposed = Inr r
                      \<longrightarrow> (\<exists>j < power_index. sig_verifies L (keys ! j) (operation proposed)))
                \<and> (endsWith (sig (operation proposed)) ''=''
                      \<or> (fromBase64Url L (sig (operation proposed)) \<noteq> None
                          \<and> (power_index = 0
                              \<or> (\<forall>j < power_index.
                                    sig_refused L (keys ! j) (operation proposed))))
                    \<longrightarrow> assureValidNextOp L did ops proposed
                          = Inl (InvalidSignatureError (operation proposed)))
                \<and> (\<not> endsWith (sig (operation proposed)) ''=''
                      \<and> fromBase64Url L (sig (operation proposed)) = None
                    \<longrightarrow> assureValidNextOp L did ops proposed
                          = Inl (Base64UrlError (sig (operation proposed))))
                \<and> (\<forall>sigBytes j. \<not> endsWith (sig (operation proposed)) ''=''
                      \<and> fromBase64Url L (sig (operation proposed)) = Some sigBytes
                      \<and> j < power_index
                      \<and> verifySigWithDidKey L (keys ! j) sigBytes
                           (cbor_encode_unsigned L (opData (operation proposed))) = None
                      \<and> (\<forall>j' < j. sig_refused L (keys ! j') (operation proposed))
                    \<longrightarrow> assureValidNextOp L did ops proposed = Inl (DidKeyError (keys ! j)))"
    unfolding Let_def keys_def [symmetric] m_def [symmetric]
    using m1 m2 m3 a(3) a(4) [unfolded ma [symmetric]] acc rej und thr by blast
qed

text \<open>
  With rotation keys \<open>[KR, KS]\<close>: a fork signed by \<open>KR\<close> over a branch signed by \<open>KR\<close>
  (empty prefix) is rejected; a fork signed by \<open>KS\<close> over a branch signed by \<open>KS\<close> is
  rejected (\<open>KR\<close> does not verify it); with rotation keys \<open>[KS, KR, KS]\<close> a fork signed by
  \<open>KR\<close> over a branch signed by \<open>KS\<close> is rejected, the lowest index of \<open>KS\<close> being 0; a
  fork signed by \<open>KR\<close> over a branch signed by \<open>KS\<close> is accepted under \<open>[KR, KS]\<close>; and
  a fork whose signature does not decode fails with the decoder's exception.
\<close>

theorem C1_nullification_power_witness:
  "assureValidNextOp sample_lib did_G [ix_G, ix_A_strong ''2024-01-01T00:00:00.000Z'']
      (ix_B ''2024-01-02T00:00:00.000Z'')
     = Inl (InvalidSignatureError op_B)
   \<and> assureValidNextOp sample_lib did_G [ix_G, ix_A ''2024-01-01T00:00:00.000Z'']
      (ix_B_weak ''2024-01-02T00:00:00.000Z'')
     = Inl (InvalidSignatureError op_B_weak)
   \<and> assureValidNextOp sample_lib did_G [ix_G_dup, ix_A ''2024-01-01T00:00:00.000Z'']
      (ix_B ''2024-01-02T00:00:00.000Z'')
     = Inl (InvalidSignatureError op_B)
   \<and> assureValidNextOp sample_lib did_G [ix_G, ix_A ''2024-01-01T00:00:00.000Z'']
      (ix_B ''2024-01-02T00:00:00.000Z'')
     = Inr \<lparr>nullified = [''bA''], new_prev = Some ''bG'',
            new_ops = [ix_G, ix_B ''2024-01-02T00:00:00.000Z'']\<rparr>
   \<and> sig_verifies sample_lib KR op_B
   \<and> assureValidNextOp sample_lib did_G [ix_G, ix_A ''2024-01-01T00:00:00.000Z'']
      (ix_B_undecodable ''2024-01-02T00:00:00.000Z'')
     = Inl (Base64UrlError ''A=A'')"
proof -
  let ?t0 = "''2024-01-01T00:00:00.000Z''" and ?t1 = "''2024-01-02T00:00:00.000Z''"
  have ne: "KR \<noteq> KS" by (simp add: KR_def KS_def)
  have len: "\<And>a b :: indexed_operation. Suc 0 < length [a, b]" by simp
  have rk: "rotationKeys op_G = [KR, KS]" "rotationKeys (operation ix_G_dup) = [KS, KR, KS]"
    by (simp_all add: op_G_def ix_G_dup_def sample_sign_def)
  have ops: "operation (ix_B ?t1) = op_B" "operation (ix_B_weak ?t1) = op_B_weak"
    by (simp_all add: ix_B_def ix_B_weak_def)
  have ref: "\<And>rest. references sample_lib (ix_G # rest) (ix_B ?t1) ''bG'' 0"
    "\<And>rest. references sample_lib (ix_G # rest) (ix_B_weak ?t1) ''bG'' 0"
    "\<And>rest. references sample_lib (ix_G_dup # rest) (ix_B ?t1) ''bG'' 0"
    "\<And>rest. references sample_lib (ix_G # rest) (ix_B_undecodable ?t1) ''bG'' 0"
    by (simp_all add: references_def sample_defs startsWith_def)
  have norm: "\<And>rest. normalizeOp (operation ((ix_G # rest) ! 0)) = Inr op_G"
    "\<And>rest. normalizeOp (operation ((ix_G_dup # rest) ! 0)) = Inr (operation ix_G_dup)"
    by (simp_all add: sample_defs)
  have s_strong: "assureValidSig sample_lib (rotationKeys op_G)
              (operation ([ix_G, ix_A_strong ?t0] ! Suc 0)) = Inr KR"
    by (simp add: assureValidSig_def endsWith_def startsWith_def suffix_to_prefix sample_defs)
  have s_weak: "assureValidSig sample_lib (rotationKeys op_G)
              (operation ([ix_G, ix_A ?t0] ! Suc 0)) = Inr KS"
    by (simp add: assureValidSig_def endsWith_def startsWith_def suffix_to_prefix sample_defs)
  have s_dup: "assureValidSig sample_lib (rotationKeys (operation ix_G_dup))
              (operation ([ix_G_dup, ix_A ?t0] ! Suc 0)) = Inr KS"
    by (simp add: assureValidSig_def endsWith_def startsWith_def suffix_to_prefix sample_defs)
  have dec: "fromBase64Url sample_lib (sig op_B) \<noteq> None"
    "fromBase64Url sample_lib (sig op_B_weak) \<noteq> None"
    by (simp_all add: sample_defs)
  have rf: "sig_refused sample_lib KR op_B_weak"
    by (simp add: sig_refused_def endsWith_def startsWith_def suffix_to_prefix sample_defs)
  have und: "\<not> endsWith (sig (operation (ix_B_undecodable ?t1))) ''=''"
    "fromBase64Url sample_lib (sig (operation (ix_B_undecodable ?t1))) = None"
    "sig (operation (ix_B_undecodable ?t1)) = ''A=A''"
    by (simp_all add: endsWith_def suffix_to_prefix sample_defs)
  have 1: "assureValidNextOp sample_lib did_G [ix_G, ix_A_strong ?t0] (ix_B ?t1)
     = Inl (InvalidSignatureError op_B)"
    using C1_nullification_power [where did = did_G, OF ref(1) len norm(1),
        THEN conjunct2, rule_format, OF s_strong] dec
    by (simp add: Let_def rk ne ops)
  have 2: "assureValidNextOp sample_lib did_G [ix_G, ix_A ?t0] (ix_B_weak ?t1)
     = Inl (InvalidSignatureError op_B_weak)"
    using C1_nullification_power [where did = did_G, OF ref(2) len norm(1),
        THEN conjunct2, rule_format, OF s_weak] rf dec
    by (simp add: Let_def rk ne ops)
  have 3: "assureValidNextOp sample_lib did_G [ix_G_dup, ix_A ?t0] (ix_B ?t1)
     = Inl (InvalidSignatureError op_B)"
    using C1_nullification_power [where did = did_G, OF ref(3) len norm(2),
        THEN conjunct2, rule_format, OF s_dup] dec
    by (simp add: Let_def rk ne ops)
  have 4: "assureValidNextOp sample_lib did_G [ix_G, ix_A ?t0] (ix_B ?t1)
     = Inr \<lparr>nullified = [''bA''], new_prev = Some ''bG'', new_ops = [ix_G, ix_B ?t1]\<rparr>"
    by (simp add: eval_defs sample_defs)
  have 5: "sig_verifies sample_lib KR op_B"
    using C1_nullification_power [where did = did_G, OF ref(1) len norm(1),
        THEN conjunct2, rule_format, OF s_weak] 4
    by (simp add: Let_def rk ne ops)
  have 6: "assureValidNextOp sample_lib did_G [ix_G, ix_A ?t0] (ix_B_undecodable ?t1)
     = Inl (Base64UrlError ''A=A'')"
    using C1_nullification_power [where did = did_G, OF ref(4) len norm(1),
        THEN conjunct2, rule_format, OF s_weak] und
    by (simp add: Let_def rk ne)
  from 1 2 3 4 5 6 show ?thesis by simp
qed

text \<open>
  The claim as stated fails: the branch \<open>A\<close> is signed by \<open>KR\<close>, the key at index 0, so
  the prefix of strictly more powerful keys is empty, and the fork's signature \<^verbatim>\<open>A=A\<close>
  does not end in \<^verbatim>\<open>=\<close> and is not base64url. The step fails with the decoder's
  exception, which is none of the typed validation errors, and not with
  \<^verbatim>\<open>InvalidSignatureError\<close>.
\<close>

theorem C1_undecodable_signature_counterexample:
  "assureValidSig sample_lib [KR, KS] (operation (ix_A_strong ''2024-01-01T00:00:00.000Z''))
     = Inr KR
   \<and> js_slice [KR, KS] 0 (indexOf [KR, KS] KR) = []
   \<and> assureValidNextOp sample_lib did_G [ix_G, ix_A_strong ''2024-01-01T00:00:00.000Z'']
        (ix_B_undecodable ''2024-01-02T00:00:00.000Z'')
      = Inl (Base64UrlError ''A=A'')
   \<and> \<not> is_validation_error (Base64UrlError ''A=A'')"
  by (simp add: eval_defs sample_defs)

lemma step_genesis_shape:
  "assureValidNextOp L did [] proposed = Inr r
     \<Longrightarrow> r = \<lparr>nullified = [], new_prev = None, new_ops = [proposed]\<rparr>
         \<and> prev (operation proposed) = None \<and> \<not> is_plc_tombstone (operation proposed)"
  by (auto simp: assureValidNextOp_def assureValidCreationOp_def Let_def
      split: sum.splits if_splits)

lemma step_nonempty_prev:
  assumes "ops \<noteq> []" "assureValidNextOp L did ops proposed = Inr r"
  shows "\<exists>c. proposedPrev L proposed = Inr (Some c)"
proof (cases "proposedPrev L proposed")
  case (Inl e)
  with assms show ?thesis by (simp add: step_parse_error)
next
  case (Inr v)
  with assms show ?thesis by (cases v) (simp_all add: step_falsy_prev)
qed

lemma step_last:
  assumes "assureValidNextOp L did ops proposed = Inr r"
  shows "new_ops r \<noteq> [] \<and> last (new_ops r) = proposed"
proof (cases "ops = []")
  case True
  with assms step_genesis_shape [of L did proposed r] show ?thesis by simp
next
  case False
  from step_nonempty_prev [OF False assms] obtain c
    where c: "proposedPrev L proposed = Inr (Some c)" by blast
  from step_success_shape [OF False c assms] show ?thesis by auto
qed

lemma foldOps_append:
  "foldOps L did h (xs @ ys) =
     (case foldOps L did h xs of Inl e \<Rightarrow> Inl e | Inr h' \<Rightarrow> foldOps L did h' ys)"
  by (induction xs arbitrary: h) (auto split: sum.splits)

lemma foldOps_snoc:
  "foldOps L did h (xs @ [x]) =
     (case foldOps L did h xs of
        Inl e \<Rightarrow> Inl e
      | Inr h' \<Rightarrow> (case assureValidNextOp L did h' x of Inl e \<Rightarrow> Inl e | Inr r \<Rightarrow> Inr (new_ops r)))"
  by (simp add: foldOps_append split: sum.splits)

lemma foldOps_last:
  assumes "foldOps L did h0 log = Inr h" "log \<noteq> []"
  shows "h \<noteq> [] \<and> last h = last log"
proof -
  from assms(2) obtain xs x where l: "log = xs @ [x]"
    by (cases log rule: rev_cases) auto
  from assms(1) obtain h' r where "assureValidNextOp L did h' x = Inr r" "h = new_ops r"
    unfolding l foldOps_snoc by (auto split: sum.splits)
  with step_last [of L did h' x r] l show ?thesis by simp
qed

section \<open>Step validator: tombstones\<close>

text \<open>
  Claim C3, as amended. For every confirmed history and proposed operation such that the
  confirmed operation referenced by the proposed \<^verbatim>\<open>prev\<close> (at the first matching index)
  is a \<^verbatim>\<open>plc_tombstone\<close>, the step fails with \<^verbatim>\<open>MisorderedOperationError\<close>.
  Consequently, when a log that ends in a tombstone has been folded into the history \<open>h\<close>,
  every extension of the log whose next operation references the last operation of \<open>h\<close>
  fails to validate with \<^verbatim>\<open>MisorderedOperationError\<close>; and any next operation that the
  step does accept nullifies the tombstone: the tombstone's CID is among the nullified
  CIDs and the new history is a proper prefix of \<open>h\<close> followed by the accepted operation.
\<close>

theorem C3_tombstone_head:
  "(references L ops proposed pp i \<and> is_plc_tombstone (operation (ops ! i))
      \<longrightarrow> assureValidNextOp L did ops proposed = Inl MisorderedOperationError)
   \<and> (log \<noteq> [] \<and> is_plc_tombstone (operation (last log)) \<and> foldOps L did [] log = Inr h
        \<and> references L h x c (length h - 1)
      \<longrightarrow> validateOperationLog L did (log @ x # rest) = Inl MisorderedOperationError)
   \<and> (log \<noteq> [] \<and> is_plc_tombstone (operation (last log)) \<and> foldOps L did [] log = Inr h
        \<and> assureValidNextOp L did h x = Inr r
      \<longrightarrow> last h = last log \<and> cid (last log) \<in> set (nullified r)
          \<and> (\<exists>k < length h. new_ops r = take k h @ [x]))"
proof -
  have 1: "references L ops proposed pp i \<and> is_plc_tombstone (operation (ops ! i))
      \<longrightarrow> assureValidNextOp L did ops proposed = Inl MisorderedOperationError"
    using step_tombstone_head [of L ops proposed pp i did] by simp
  have 2: "validateOperationLog L did (log @ x # rest) = Inl MisorderedOperationError"
    if a: "log \<noteq> [] \<and> is_plc_tombstone (operation (last log)) \<and> foldOps L did [] log = Inr h
        \<and> references L h x c (length h - 1)"
  proof -
    from a have h: "h \<noteq> []" "last h = last log"
      using foldOps_last [of L did "[]" log h] by auto
    then have "h ! (length h - 1) = last log"
      by (simp add: last_conv_nth)
    with a have "assureValidNextOp L did h x = Inl MisorderedOperationError"
      using step_tombstone_head [of L h x c "length h - 1" did] by simp
    with a show ?thesis
      by (simp add: validateOperationLog_def foldOps_append)
  qed
  have 3: "last h = last log \<and> cid (last log) \<in> set (nullified r)
          \<and> (\<exists>k < length h. new_ops r = take k h @ [x])"
    if a: "log \<noteq> [] \<and> is_plc_tombstone (operation (last log)) \<and> foldOps L did [] log = Inr h
        \<and> assureValidNextOp L did h x = Inr r"
  proof -
    from a have h: "h \<noteq> []" "last h = last log"
      using foldOps_last [of L did "[]" log h] by auto
    from a have ok: "assureValidNextOp L did h x = Inr r" by simp
    from step_nonempty_prev [OF h(1) ok] obtain c
      where c: "proposedPrev L x = Inr (Some c)" by blast
    from step_success_shape [OF h(1) c ok] obtain i where i: "i < length h"
      "cid (h ! i) = cid_toString L c" "\<forall>j < i. cid (h ! j) \<noteq> cid_toString L c"
      "new_ops r = take (Suc i) h @ [x]" "nullified r = map cid (drop (Suc i) h)"
      by blast
    have ref: "references L h x c i"
      using c i by (simp add: references_def proposedPrev_Some)
    have nt: "\<not> is_plc_tombstone (operation (h ! i))"
      using step_tombstone_head [OF ref, of did] ok by auto
    have "i \<noteq> length h - 1"
      using nt a h by (auto simp: last_conv_nth)
    with i(1) have lt: "Suc i < length h" by arith
    then have "last h \<in> set (drop (Suc i) h)"
      using h(1) by (metis drop_eq_Nil last_drop last_in_set not_le)
    then have "cid (last log) \<in> set (nullified r)"
      using i(5) h(2) by auto
    with lt i(4) h(2) show ?thesis
      by blast
  qed
  from 1 2 3 show ?thesis by blast
qed

text \<open>
  Scenario S6: on the history \<open>[G, T]\<close> an operation with \<^verbatim>\<open>prev = cid(T)\<close> is
  misordered, alone and as the extension of the log; the fork \<open>B\<close> from \<open>G\<close> is accepted
  and nullifies \<open>T\<close>.
\<close>

theorem C3_tombstone_head_witness:
  "assureValidNextOp sample_lib did_G [ix_G, ix_T] (ix_X (Some ''bT''))
     = Inl MisorderedOperationError
   \<and> validateOperationLog sample_lib did_G ([ix_G, ix_T] @ ix_X (Some ''bT'') # [])
     = Inl MisorderedOperationError
   \<and> assureValidNextOp sample_lib did_G [ix_G, ix_T] (ix_B ''2024-01-02T00:00:00.000Z'')
     = Inr \<lparr>nullified = [''bT''], new_prev = Some ''bG'',
            new_ops = [ix_G, ix_B ''2024-01-02T00:00:00.000Z'']\<rparr>
   \<and> cid (last [ix_G, ix_T]) \<in> set [''bT'']"
proof -
  let ?t1 = "''2024-01-02T00:00:00.000Z''"
  let ?r = "\<lparr>nullified = [''bT''], new_prev = Some ''bG'', new_ops = [ix_G, ix_B ?t1]\<rparr>"
  have ref: "references sample_lib [ix_G, ix_T] (ix_X (Some ''bT'')) ''bT'' (length [ix_G, ix_T] - 1)"
    by (simp add: references_def sample_defs startsWith_def)
  have tomb: "is_plc_tombstone (operation ([ix_G, ix_T] ! (length [ix_G, ix_T] - 1)))"
    "is_plc_tombstone (operation (last [ix_G, ix_T]))"
    by (simp_all add: ix_T_def op_T_def sample_sign_def)
  have g: "assureValidNextOp sample_lib did_G [] ix_G
      = Inr \<lparr>nullified = [], new_prev = None, new_ops = [ix_G]\<rparr>"
    by (simp add: eval_defs sample_defs)
  have t: "assureValidNextOp sample_lib did_G [ix_G] ix_T
      = Inr \<lparr>nullified = [], new_prev = Some ''bG'', new_ops = [ix_G, ix_T]\<rparr>"
    by (simp add: eval_defs sample_defs)
  have fold: "foldOps sample_lib did_G [] [ix_G, ix_T] = Inr [ix_G, ix_T]"
    by (simp add: g t)
  have b: "assureValidNextOp sample_lib did_G [ix_G, ix_T] (ix_B ?t1) = Inr ?r"
    by (simp add: eval_defs sample_defs)
  note T = C3_tombstone_head [where L = sample_lib and did = did_G and ops = "[ix_G, ix_T]"
      and proposed = "ix_X (Some ''bT'')" and pp = "''bT''" and i = "length [ix_G, ix_T] - 1"
      and log = "[ix_G, ix_T]" and h = "[ix_G, ix_T]" and x = "ix_X (Some ''bT'')"
      and c = "''bT''" and rest = "[]"]
  note U = C3_tombstone_head [where L = sample_lib and did = did_G
      and log = "[ix_G, ix_T]" and h = "[ix_G, ix_T]" and x = "ix_B ?t1" and r = ?r]
  have 1: "assureValidNextOp sample_lib did_G [ix_G, ix_T] (ix_X (Some ''bT''))
     = Inl MisorderedOperationError"
    using T [THEN conjunct1] ref tomb(1) by blast
  have 2: "validateOperationLog sample_lib did_G ([ix_G, ix_T] @ ix_X (Some ''bT'') # [])
     = Inl MisorderedOperationError"
    using T [THEN conjunct2, THEN conjunct1] ref tomb(2) fold by blast
  have 3: "cid (last [ix_G, ix_T]) \<in> set [''bT'']"
    using U [THEN conjunct2, THEN conjunct2] tomb(2) fold b by simp
  from 1 2 3 b show ?thesis by blast
qed

text \<open>
  The claim as stated fails: the log \<open>[G, T]\<close> ends in a tombstone and validates (to no
  document), and its extension by \<open>B\<close>, a fork from \<open>G\<close> signed by the more powerful key
  \<open>KR\<close> one day after \<open>T\<close>, validates to the document of \<open>B\<close>.
\<close>

theorem C3_tombstone_nullified_counterexample:
  "is_plc_tombstone (operation (last [ix_G, ix_T]))
   \<and> validateOperationLog sample_lib did_G [ix_G, ix_T] = Inr None
   \<and> validateOperationLog sample_lib did_G ([ix_G, ix_T] @ [ix_B ''2024-01-02T00:00:00.000Z''])
     = Inr (Some \<lparr>doc_did = did_G,
                  doc_verificationMethods = [(''atproto'', KS)],
                  doc_rotationKeys = [KR, KS],
                  doc_alsoKnownAs = [''at://bob.test''],
                  doc_services = sample_services\<rparr>)"
proof -
  let ?t1 = "''2024-01-02T00:00:00.000Z''"
  have g: "assureValidNextOp sample_lib did_G [] ix_G
      = Inr \<lparr>nullified = [], new_prev = None, new_ops = [ix_G]\<rparr>"
    by (simp add: eval_defs sample_defs)
  have t: "assureValidNextOp sample_lib did_G [ix_G] ix_T
      = Inr \<lparr>nullified = [], new_prev = Some ''bG'', new_ops = [ix_G, ix_T]\<rparr>"
    by (simp add: eval_defs sample_defs)
  have b: "assureValidNextOp sample_lib did_G [ix_G, ix_T] (ix_B ?t1)
      = Inr \<lparr>nullified = [''bT''], new_prev = Some ''bG'', new_ops = [ix_G, ix_B ?t1]\<rparr>"
    by (simp add: eval_defs sample_defs)
  have 1: "is_plc_tombstone (operation (last [ix_G, ix_T]))"
    by (simp add: ix_T_def op_T_def sample_sign_def)
  have 2: "validateOperationLog sample_lib did_G [ix_G, ix_T] = Inr None"
    using 1 by (simp add: validateOperationLog_def g t opToData_def)
  have 3: "validateOperationLog sample_lib did_G ([ix_G, ix_T] @ [ix_B ?t1])
     = Inr (Some \<lparr>doc_did = did_G,
                  doc_verificationMethods = [(''atproto'', KS)],
                  doc_rotationKeys = [KR, KS],
                  doc_alsoKnownAs = [''at://bob.test''],
                  doc_services = sample_services\<rparr>)"
  proof -
    have f: "foldOps sample_lib did_G [] ([ix_G, ix_T] @ [ix_B ?t1]) = Inr [ix_G, ix_B ?t1]"
      by (simp add: g t b)
    have d: "opToData did_G (operation (ix_B ?t1))
      = Inr (Some \<lparr>doc_did = did_G,
                  doc_verificationMethods = [(''atproto'', KS)],
                  doc_rotationKeys = [KR, KS],
                  doc_alsoKnownAs = [''at://bob.test''],
                  doc_services = sample_services\<rparr>)"
      by (simp add: opToData_def ix_B_def op_B_def sample_sign_def)
    show ?thesis
      unfolding validateOperationLog_def f using d by simp
  qed
  from 1 2 3 show ?thesis by blast
qed

lemma js_slice_take24: "js_slice xs 0 24 = take 24 xs"
  using js_slice_take [of xs 24] by simp

lemma step_genesis:
  "assureValidNextOp L did [] proposed =
     (case assureValidCreationOp L did (operation proposed) of
        Inl e \<Rightarrow> Inl e
      | Inr _ \<Rightarrow> Inr \<lparr>nullified = [], new_prev = None, new_ops = [proposed]\<rparr>)"
  by (simp add: assureValidNextOp_def)

section \<open>Genesis binder\<close>

text \<open>
  Claim C4, as amended. \<^verbatim>\<open>didForCreateOp\<close> returns the string \<^verbatim>\<open>did:plc:\<close> followed by
  the first 24 characters of the base32 encoding of the SHA-256 digest of the CBOR encoding
  of the genesis operation with its \<^verbatim>\<open>sig\<close> field included. When the step is called with
  an empty confirmed history and a proposed operation that is not a tombstone and for which
  the signature check under its own normalized rotation keys returns a key, it fails with
  \<^verbatim>\<open>GenesisHashError\<close> carrying the derived DID whenever the derived DID differs from the
  DID the log is indexed under; and a genesis that the step accepts has the derived DID
  equal to that DID.
\<close>

theorem C4_genesis_binding:
  "didForCreateOp L x = ''did:plc:'' @ take 24 (toBase32 L (toSha256 L (cbor_encode L x)))
   \<and> (\<not> is_plc_tombstone (operation proposed)
        \<and> normalizeOp (operation proposed) = Inr n
        \<and> assureValidSig L (rotationKeys n) (operation proposed) = Inr k
        \<and> didForCreateOp L (operation proposed) \<noteq> did
      \<longrightarrow> assureValidNextOp L did [] proposed
            = Inl (GenesisHashError (didForCreateOp L (operation proposed))))
   \<and> (assureValidNextOp L did [] proposed = Inr r
      \<longrightarrow> didForCreateOp L (operation proposed) = did)"
proof -
  have 1: "didForCreateOp L x = ''did:plc:'' @ take 24 (toBase32 L (toSha256 L (cbor_encode L x)))"
    by (simp add: didForCreateOp_def Let_def js_slice_take24)
  have 2: "assureValidNextOp L did [] proposed
            = Inl (GenesisHashError (didForCreateOp L (operation proposed)))"
    if a: "\<not> is_plc_tombstone (operation proposed)
        \<and> normalizeOp (operation proposed) = Inr n
        \<and> assureValidSig L (rotationKeys n) (operation proposed) = Inr k
        \<and> didForCreateOp L (operation proposed) \<noteq> did"
    using a by (simp add: step_genesis assureValidCreationOp_def Let_def)
  have 3: "didForCreateOp L (operation proposed) = did"
    if "assureValidNextOp L did [] proposed = Inr r"
    using that
    by (auto simp: step_genesis assureValidCreationOp_def Let_def split: sum.splits if_splits)
  from 1 2 3 show ?thesis by blast
qed

text \<open>Scenario S2: the sample genesis indexed under another DID, and under its own.\<close>

theorem C4_genesis_binding_witness:
  "didForCreateOp sample_lib op_G = ''did:plc:op:null#did:key:zSigning''
   \<and> assureValidSig sample_lib (rotationKeys op_G) (operation ix_G) = Inr KS
   \<and> assureValidNextOp sample_lib ''did:plc:aaaaaaaaaaaaaaaaaaaaaaaa'' [] ix_G
     = Inl (GenesisHashError ''did:plc:op:null#did:key:zSigning'')
   \<and> assureValidNextOp sample_lib did_G [] ix_G
     = Inr \<lparr>nullified = [], new_prev = None, new_ops = [ix_G]\<rparr>"
proof -
  have d: "didForCreateOp sample_lib op_G = ''did:plc:op:null#did:key:zSigning''"
    using C4_genesis_binding [where L = sample_lib and x = op_G, THEN conjunct1]
    by (simp add: sample_defs)
  have s: "assureValidSig sample_lib (rotationKeys op_G) (operation ix_G) = Inr KS"
    by (simp add: assureValidSig_def endsWith_def startsWith_def suffix_to_prefix sample_defs)
  have h: "\<not> is_plc_tombstone (operation ix_G)
        \<and> normalizeOp (operation ix_G) = Inr op_G
        \<and> didForCreateOp sample_lib (operation ix_G) \<noteq> ''did:plc:aaaaaaaaaaaaaaaaaaaaaaaa''"
    by (simp add: didForCreateOp_def js_slice_def js_index_def sample_defs)
  have o: "operation ix_G = op_G" by (simp add: ix_G_def)
  have 2: "assureValidNextOp sample_lib ''did:plc:aaaaaaaaaaaaaaaaaaaaaaaa'' [] ix_G
     = Inl (GenesisHashError ''did:plc:op:null#did:key:zSigning'')"
    using C4_genesis_binding [where L = sample_lib and proposed = ix_G and n = op_G
        and k = KS and did = "''did:plc:aaaaaaaaaaaaaaaaaaaaaaaa''",
        THEN conjunct2, THEN conjunct1] h s d
    by (simp add: o)
  have 3: "assureValidNextOp sample_lib did_G [] ix_G
     = Inr \<lparr>nullified = [], new_prev = None, new_ops = [ix_G]\<rparr>"
    by (simp add: eval_defs sample_defs)
  from d s 2 3 show ?thesis by blast
qed

text \<open>
  The claim as stated fails: with an empty confirmed history and a derived DID that differs
  from the DID of the log, a genesis whose signature ends in \<^verbatim>\<open>=\<close> fails with
  \<^verbatim>\<open>InvalidSignatureError\<close>, and a tombstone fails with \<^verbatim>\<open>MisorderedOperationError\<close>:
  both checks come before the comparison of the DIDs.
\<close>

theorem C4_invalid_signature_first_counterexample:
  "didForCreateOp sample_lib (Plc_operation [] [KR] [] [] None ''AA='') \<noteq> did_G
   \<and> assureValidNextOp sample_lib did_G []
        \<lparr>operation = Plc_operation [] [KR] [] [] None ''AA='', cid = ''bG'',
         createdAt = ''2024-01-01T00:00:00.000Z''\<rparr>
      = Inl (InvalidSignatureError (Plc_operation [] [KR] [] [] None ''AA=''))
   \<and> didForCreateOp sample_lib op_T \<noteq> did_G
   \<and> assureValidNextOp sample_lib did_G [] ix_T = Inl MisorderedOperationError"
  by (simp add: eval_defs sample_defs)

lemma foldl_step_ops_Inl: "foldl (step_ops L did) (Inl e) log = Inl e"
  by (induction log) (simp_all add: step_ops_def)

lemma foldOps_foldl: "foldOps L did h log = foldl (step_ops L did) (Inr h) log"
  by (induction log arbitrary: h) (auto simp: step_ops_def foldl_step_ops_Inl split: sum.splits)

lemma opToData_None: "opToData did x = Inr None \<longleftrightarrow> is_plc_tombstone x"
  by (cases x) (simp_all add: opToData_def)

lemma opToData_Some:
  "opToData did x = Inr (Some d) \<longleftrightarrow>
     (\<not> is_plc_tombstone x \<and>
      (\<exists>n. normalizeOp x = Inr n
         \<and> d = \<lparr>doc_did = did,
                 doc_verificationMethods = verificationMethods n,
                 doc_rotationKeys = rotationKeys n,
                 doc_alsoKnownAs = alsoKnownAs n,
                 doc_services = services n\<rparr>))"
  by (cases x) (auto simp: opToData_def)

section \<open>Log driver\<close>

text \<open>
  Claim C6. The loop of \<^verbatim>\<open>validateOperationLog\<close> is the left fold of the step over the
  log, from the empty history, keeping the \<^verbatim>\<open>ops\<close> of each step. On success the driver
  returns \<^verbatim>\<open>null\<close> exactly when the fold succeeds with a non-empty history whose last
  operation is a \<^verbatim>\<open>plc_tombstone\<close>; it returns a document exactly when the last operation
  is not a tombstone, and the document then has the \<^verbatim>\<open>verificationMethods\<close>,
  \<^verbatim>\<open>rotationKeys\<close>, \<^verbatim>\<open>alsoKnownAs\<close> and \<^verbatim>\<open>services\<close> of the normalized last operation
  and the \<^verbatim>\<open>did\<close> argument as its \<^verbatim>\<open>did\<close>. It fails exactly when the fold fails, with
  that error, or when the history is empty (an empty log), with a \<^verbatim>\<open>TypeError\<close>.
\<close>

theorem C6_log_driver:
  "foldOps L did [] log = fold_log L did log
   \<and> (validateOperationLog L did log = Inr None \<longleftrightarrow>
        (\<exists>h. fold_log L did log = Inr h \<and> h \<noteq> [] \<and> is_plc_tombstone (operation (last h))))
   \<and> (validateOperationLog L did log = Inr (Some d) \<longleftrightarrow>
        (\<exists>h n. fold_log L did log = Inr h \<and> h \<noteq> []
           \<and> \<not> is_plc_tombstone (operation (last h))
           \<and> normalizeOp (operation (last h)) = Inr n
           \<and> d = \<lparr>doc_did = did,
                   doc_verificationMethods = verificationMethods n,
                   doc_rotationKeys = rotationKeys n,
                   doc_alsoKnownAs = alsoKnownAs n,
                   doc_services = services n\<rparr>))
   \<and> (validateOperationLog L did log = Inl e \<longleftrightarrow>
        (fold_log L did log = Inl e \<or> (fold_log L did log = Inr [] \<and> e = TypeError)))"
proof -
  have f: "foldOps L did [] log = fold_log L did log"
    by (simp add: fold_log_def foldOps_foldl)
  have nt: "\<exists>v. opToData did x = Inr (Some v)" if "\<not> is_plc_tombstone x" for x
    using that by (cases x) (simp_all add: opToData_def)
  have 2: "validateOperationLog L did log = Inr None \<longleftrightarrow>
        (\<exists>h. fold_log L did log = Inr h \<and> h \<noteq> [] \<and> is_plc_tombstone (operation (last h)))"
    unfolding validateOperationLog_def f
    by (auto simp: opToData_None simp del: last.simps split: sum.splits list.splits)
  have 3: "validateOperationLog L did log = Inr (Some d) \<longleftrightarrow>
        (\<exists>h n. fold_log L did log = Inr h \<and> h \<noteq> []
           \<and> \<not> is_plc_tombstone (operation (last h))
           \<and> normalizeOp (operation (last h)) = Inr n
           \<and> d = \<lparr>doc_did = did,
                   doc_verificationMethods = verificationMethods n,
                   doc_rotationKeys = rotationKeys n,
                   doc_alsoKnownAs = alsoKnownAs n,
                   doc_services = services n\<rparr>)"
    unfolding validateOperationLog_def f
    by (auto simp: opToData_Some simp del: last.simps split: sum.splits list.splits)
  have 4: "validateOperationLog L did log = Inl e \<longleftrightarrow>
        (fold_log L did log = Inl e \<or> (fold_log L did log = Inr [] \<and> e = TypeError))"
  proof (cases "fold_log L did log")
    case (Inl a)
    then show ?thesis by (simp add: validateOperationLog_def f)
  next
    case (Inr h)
    show ?thesis
    proof (cases h)
      case Nil
      with Inr show ?thesis by (auto simp: validateOperationLog_def f)
    next
      case (Cons a as)
      obtain v where "opToData did (operation (last h)) = Inr v"
        using nt [of "operation (last h)"] opToData_None [of did "operation (last h)"] by blast
      with Inr Cons show ?thesis by (simp add: validateOperationLog_def f del: last.simps)
    qed
  qed
  from f 2 3 4 show ?thesis by blast
qed

text \<open>A log ending in a tombstone, scenario S1 (a linear extension), and the empty log.\<close>

theorem C6_log_driver_witness:
  "fold_log sample_lib did_G [ix_G, ix_T] = Inr [ix_G, ix_T]
   \<and> validateOperationLog sample_lib did_G [ix_G, ix_T] = Inr None
   \<and> fold_log sample_lib did_G [ix_G, ix_A ''2024-01-01T00:00:00.000Z'']
       = Inr [ix_G, ix_A ''2024-01-01T00:00:00.000Z'']
   \<and> validateOperationLog sample_lib did_G [ix_G, ix_A ''2024-01-01T00:00:00.000Z'']
       = Inr (Some \<lparr>doc_did = did_G,
                    doc_verificationMethods = [(''atproto'', KS)],
                    doc_rotationKeys = [KR, KS],
                    doc_alsoKnownAs = [''at://alice2.test''],
                    doc_services = sample_services\<rparr>)
   \<and> validateOperationLog sample_lib did_G [] = Inl TypeError"
proof -
  let ?t0 = "''2024-01-01T00:00:00.000Z''"
  let ?doc = "\<lparr>doc_did = did_G,
                doc_verificationMethods = [(''atproto'', KS)],
                doc_rotationKeys = [KR, KS],
                doc_alsoKnownAs = [''at://alice2.test''],
                doc_services = sample_services\<rparr>"
  have g: "assureValidNextOp sample_lib did_G [] ix_G
      = Inr \<lparr>nullified = [], new_prev = None, new_ops = [ix_G]\<rparr>"
    by (simp add: eval_defs sample_defs)
  have t: "assureValidNextOp sample_lib did_G [ix_G] ix_T
      = Inr \<lparr>nullified = [], new_prev = Some ''bG'', new_ops = [ix_G, ix_T]\<rparr>"
    by (simp add: eval_defs sample_defs)
  have a: "assureValidNextOp sample_lib did_G [ix_G] (ix_A ?t0)
      = Inr \<lparr>nullified = [], new_prev = Some ''bG'', new_ops = [ix_G, ix_A ?t0]\<rparr>"
    by (simp add: eval_defs sample_defs)
  note T = C6_log_driver [where L = sample_lib and did = did_G and log = "[ix_G, ix_T]"]
  note A = C6_log_driver [where L = sample_lib and did = did_G and log = "[ix_G, ix_A ?t0]"
      and d = ?doc]
  note E = C6_log_driver [where L = sample_lib and did = did_G and log = "[]" and e = TypeError]
  have 1: "fold_log sample_lib did_G [ix_G, ix_T] = Inr [ix_G, ix_T]"
    using T [THEN conjunct1] by (simp add: g t)
  have tomb: "is_plc_tombstone (operation (last [ix_G, ix_T]))"
    by (simp add: ix_T_def op_T_def sample_sign_def)
  have 2: "validateOperationLog sample_lib did_G [ix_G, ix_T] = Inr None"
    using T [THEN conjunct2, THEN conjunct1] 1 tomb by blast
  have 3: "fold_log sample_lib did_G [ix_G, ix_A ?t0] = Inr [ix_G, ix_A ?t0]"
    using A [THEN conjunct1] by (simp add: g a)
  have n: "\<not> is_plc_tombstone (operation (last [ix_G, ix_A ?t0]))
      \<and> normalizeOp (operation (last [ix_G, ix_A ?t0])) = Inr op_A
      \<and> ?doc = \<lparr>doc_did = did_G,
                   doc_verificationMethods = verificationMethods op_A,
                   doc_rotationKeys = rotationKeys op_A,
                   doc_alsoKnownAs = alsoKnownAs op_A,
                   doc_services = services op_A\<rparr>"
    by (simp add: ix_A_def op_A_def sample_sign_def)
  have 4: "validateOperationLog sample_lib did_G [ix_G, ix_A ?t0] = Inr (Some ?doc)"
    using A [THEN conjunct2, THEN conjunct2, THEN conjunct1] 3 n by blast
  have 5: "validateOperationLog sample_lib did_G [] = Inl TypeError"
    using E [THEN conjunct2, THEN conjunct2, THEN conjunct2] by (simp add: fold_log_def)
  from 1 2 3 4 5 show ?thesis by blast
qed

lemma prev_linked_snoc:
  "prev_linked (xs @ [y]) \<longleftrightarrow>
     prev_linked xs \<and> (xs \<noteq> [] \<longrightarrow> prev (operation y) = Some (cid (last xs)))"
  by (induction xs rule: prev_linked.induct) auto

lemma prev_linked_nth:
  "prev_linked xs \<longleftrightarrow>
     (\<forall>i. Suc i < length xs \<longrightarrow> prev (operation (xs ! Suc i)) = Some (cid (xs ! i)))"
proof (induction xs rule: prev_linked.induct)
  case (1 x y rest)
  show ?case
  proof
    assume a: "prev_linked (x # y # rest)"
    show "\<forall>i. Suc i < length (x # y # rest)
        \<longrightarrow> prev (operation ((x # y # rest) ! Suc i)) = Some (cid ((x # y # rest) ! i))"
    proof (intro allI impI)
      fix i
      assume "Suc i < length (x # y # rest)"
      with a "1.IH" show "prev (operation ((x # y # rest) ! Suc i)) = Some (cid ((x # y # rest) ! i))"
        by (cases i) auto
    qed
  next
    assume a: "\<forall>i. Suc i < length (x # y # rest)
        \<longrightarrow> prev (operation ((x # y # rest) ! Suc i)) = Some (cid ((x # y # rest) ! i))"
    from a [rule_format, of 0] have h: "prev (operation y) = Some (cid x)" by simp
    have "\<forall>i. Suc i < length (y # rest)
        \<longrightarrow> prev (operation ((y # rest) ! Suc i)) = Some (cid ((y # rest) ! i))"
    proof (intro allI impI)
      fix i
      assume "Suc i < length (y # rest)"
      with a [rule_format, of "Suc i"]
      show "prev (operation ((y # rest) ! Suc i)) = Some (cid ((y # rest) ! i))" by simp
    qed
    with "1.IH" h show "prev_linked (x # y # rest)" by simp
  qed
qed auto

lemma prev_linked_take: "prev_linked xs \<Longrightarrow> prev_linked (take k xs)"
  unfolding prev_linked_nth by simp

lemma chain_continuity_nth:
  "chain_continuity h \<longleftrightarrow>
     (h \<noteq> [] \<longrightarrow> prev (operation (h ! 0)) = None)
     \<and> (\<forall>i. 1 \<le> i \<and> i < length h \<longrightarrow> prev (operation (h ! i)) = Some (cid (h ! (i - 1))))"
proof -
  have "(\<forall>i. Suc i < length h \<longrightarrow> prev (operation (h ! Suc i)) = Some (cid (h ! i)))
      \<longleftrightarrow> (\<forall>i. 1 \<le> i \<and> i < length h \<longrightarrow> prev (operation (h ! i)) = Some (cid (h ! (i - 1))))"
  proof
    assume a: "\<forall>i. Suc i < length h \<longrightarrow> prev (operation (h ! Suc i)) = Some (cid (h ! i))"
    show "\<forall>i. 1 \<le> i \<and> i < length h \<longrightarrow> prev (operation (h ! i)) = Some (cid (h ! (i - 1)))"
    proof (intro allI impI)
      fix i assume "1 \<le> i \<and> i < length h"
      with a [rule_format, of "i - 1"]
      show "prev (operation (h ! i)) = Some (cid (h ! (i - 1)))" by simp
    qed
  next
    assume a: "\<forall>i. 1 \<le> i \<and> i < length h \<longrightarrow> prev (operation (h ! i)) = Some (cid (h ! (i - 1)))"
    show "\<forall>i. Suc i < length h \<longrightarrow> prev (operation (h ! Suc i)) = Some (cid (h ! i))"
    proof (intro allI impI)
      fix i assume "Suc i < length h"
      with a [rule_format, of "Suc i"]
      show "prev (operation (h ! Suc i)) = Some (cid (h ! i))" by simp
    qed
  qed
  then show ?thesis
    unfolding chain_continuity_def prev_linked_nth [of h]
    by (cases h) auto
qed

lemma step_chain_continuity:
  assumes can: "canonical_cid_strings L"
    and ch: "chain_continuity ops"
    and ok: "assureValidNextOp L did ops proposed = Inr r"
  shows "chain_continuity (new_ops r)"
proof (cases "ops = []")
  case True
  with ok step_genesis_shape [of L did proposed r] show ?thesis
    by (simp add: chain_continuity_def)
next
  case False
  from step_nonempty_prev [OF False ok] obtain c
    where c: "proposedPrev L proposed = Inr (Some c)" by blast
  then obtain s where s: "prev (operation proposed) = Some s" "cid_fromString L s = Some c"
    by (auto simp: proposedPrev_Some)
  with can have cs: "cid_toString L c = s"
    by (simp add: canonical_cid_strings_def)
  from step_success_shape [OF False c ok] obtain i where i: "i < length ops"
    "cid (ops ! i) = cid_toString L c" "new_ops r = take (Suc i) ops @ [proposed]"
    by blast
  obtain x xs where o: "ops = x # xs" using False by (cases ops) auto
  from ch o have p0: "prev (operation x) = None" and pl: "prev_linked ops"
    by (simp_all add: chain_continuity_def)
  have l: "last (take (Suc i) ops) = ops ! i"
    using i(1) by (rule last_take_Suc)
  have "prev_linked (take (Suc i) ops @ [proposed])"
    unfolding prev_linked_snoc using prev_linked_take [OF pl] l i(2) cs s(1) by simp
  moreover have "take (Suc i) ops @ [proposed] = x # (take i xs @ [proposed])"
    using o by simp
  ultimately show ?thesis
    using p0 i(3) by (simp add: chain_continuity_def)
qed

lemma foldOps_chain_continuity:
  "canonical_cid_strings L \<Longrightarrow> chain_continuity h0 \<Longrightarrow> foldOps L did h0 log = Inr h
     \<Longrightarrow> chain_continuity h"
proof (induction log arbitrary: h0)
  case Nil
  then show ?case by simp
next
  case (Cons x log)
  from Cons.prems(3) obtain r where r: "assureValidNextOp L did h0 x = Inr r"
    "foldOps L did (new_ops r) log = Inr h"
    by (auto split: sum.splits)
  from step_chain_continuity [OF Cons.prems(1,2) r(1)] Cons.IH [OF Cons.prems(1) _ r(2)]
  show ?case by simp
qed

section \<open>Chain continuity\<close>

text \<open>
  Claim C5. Chain continuity is an invariant of the step: for every call of the step on a
  confirmed history in which the first operation has a null \<^verbatim>\<open>prev\<close> and the \<^verbatim>\<open>prev\<close> of
  every later operation equals the \<^verbatim>\<open>cid\<close> of the operation before it, the \<^verbatim>\<open>ops\<close> list
  returned on success has the same property. Hence the final history of every accepted log
  is linearly prev-linked: \<open>prev (h ! i) = cid (h ! (i - 1))\<close> for \<open>i \<ge> 1\<close>, and the first
  \<^verbatim>\<open>prev\<close> is null. The step compares the string form of the parsed \<^verbatim>\<open>prev\<close> with the
  stored \<^verbatim>\<open>cid\<close>; the statement takes the CID library to have canonical string forms (a
  string that parses is the string form of what it parses to), so that this comparison is
  the equality of the two strings. The last conjunct states chain continuity by indices.
\<close>

theorem C5_chain_continuity:
  "(canonical_cid_strings L \<and> chain_continuity ops
      \<and> assureValidNextOp L did ops proposed = Inr r
     \<longrightarrow> chain_continuity (new_ops r))
   \<and> (canonical_cid_strings L \<and> foldOps L did [] log = Inr h
     \<longrightarrow> (h \<noteq> [] \<longrightarrow> prev (operation (h ! 0)) = None)
         \<and> (\<forall>i. 1 \<le> i \<and> i < length h
               \<longrightarrow> prev (operation (h ! i)) = Some (cid (h ! (i - 1)))))
   \<and> (chain_continuity ops \<longleftrightarrow>
        (ops \<noteq> [] \<longrightarrow> prev (operation (ops ! 0)) = None)
        \<and> (\<forall>i. 1 \<le> i \<and> i < length ops
              \<longrightarrow> prev (operation (ops ! i)) = Some (cid (ops ! (i - 1)))))"
proof -
  have 1: "canonical_cid_strings L \<and> chain_continuity ops
      \<and> assureValidNextOp L did ops proposed = Inr r
     \<longrightarrow> chain_continuity (new_ops r)"
    using step_chain_continuity by blast
  have e: "chain_continuity []" by (simp add: chain_continuity_def)
  have 2: "canonical_cid_strings L \<and> foldOps L did [] log = Inr h
     \<longrightarrow> (h \<noteq> [] \<longrightarrow> prev (operation (h ! 0)) = None)
         \<and> (\<forall>i. 1 \<le> i \<and> i < length h
               \<longrightarrow> prev (operation (h ! i)) = Some (cid (h ! (i - 1))))"
    using foldOps_chain_continuity [OF _ e, of L did log h] chain_continuity_nth [of h]
    by blast
  from 1 2 chain_continuity_nth [of ops] show ?thesis by blast
qed

text \<open>
  Scenario S3 in the sample instance, whose CID strings are canonical: the fork \<open>B\<close> on the
  linked history \<open>[G, A]\<close> gives the linked history \<open>[G, B]\<close>, and so does the log
  \<open>[G, A, B]\<close>.
\<close>

theorem C5_chain_continuity_witness:
  "canonical_cid_strings sample_lib
   \<and> chain_continuity [ix_G, ix_A ''2024-01-01T00:00:00.000Z'']
   \<and> assureValidNextOp sample_lib did_G [ix_G, ix_A ''2024-01-01T00:00:00.000Z'']
        (ix_B ''2024-01-02T00:00:00.000Z'')
       = Inr \<lparr>nullified = [''bA''], new_prev = Some ''bG'',
              new_ops = [ix_G, ix_B ''2024-01-02T00:00:00.000Z'']\<rparr>
   \<and> chain_continuity [ix_G, ix_B ''2024-01-02T00:00:00.000Z'']
   \<and> foldOps sample_lib did_G []
        [ix_G, ix_A ''2024-01-01T00:00:00.000Z'', ix_B ''2024-01-02T00:00:00.000Z'']
       = Inr [ix_G, ix_B ''2024-01-02T00:00:00.000Z'']
   \<and> prev (operation ([ix_G, ix_B ''2024-01-02T00:00:00.000Z''] ! 0)) = None
   \<and> prev (operation ([ix_G, ix_B ''2024-01-02T00:00:00.000Z''] ! 1))
       = Some (cid ([ix_G, ix_B ''2024-01-02T00:00:00.000Z''] ! (1 - 1)))"
proof -
  let ?t0 = "''2024-01-01T00:00:00.000Z''" and ?t1 = "''2024-01-02T00:00:00.000Z''"
  let ?r = "\<lparr>nullified = [''bA''], new_prev = Some ''bG'', new_ops = [ix_G, ix_B ?t1]\<rparr>"
  have can: "canonical_cid_strings sample_lib"
    by (simp add: canonical_cid_strings_def sample_lib_def)
  have ch: "chain_continuity [ix_G, ix_A ?t0]"
    by (simp add: chain_continuity_def sample_defs)
  have g: "assureValidNextOp sample_lib did_G [] ix_G
      = Inr \<lparr>nullified = [], new_prev = None, new_ops = [ix_G]\<rparr>"
    by (simp add: eval_defs sample_defs)
  have a: "assureValidNextOp sample_lib did_G [ix_G] (ix_A ?t0)
      = Inr \<lparr>nullified = [], new_prev = Some ''bG'', new_ops = [ix_G, ix_A ?t0]\<rparr>"
    by (simp add: eval_defs sample_defs)
  have b: "assureValidNextOp sample_lib did_G [ix_G, ix_A ?t0] (ix_B ?t1) = Inr ?r"
    by (simp add: eval_defs sample_defs)
  have f: "foldOps sample_lib did_G [] [ix_G, ix_A ?t0, ix_B ?t1] = Inr [ix_G, ix_B ?t1]"
    by (simp add: g a b)
  note S = C5_chain_continuity [where L = sample_lib and did = did_G
      and ops = "[ix_G, ix_A ?t0]" and proposed = "ix_B ?t1" and r = ?r
      and log = "[ix_G, ix_A ?t0, ix_B ?t1]" and h = "[ix_G, ix_B ?t1]"]
  have 1: "chain_continuity [ix_G, ix_B ?t1]"
    using S [THEN conjunct1] can ch b by simp
  have 2: "prev (operation ([ix_G, ix_B ?t1] ! 0)) = None
      \<and> prev (operation ([ix_G, ix_B ?t1] ! 1)) = Some (cid ([ix_G, ix_B ?t1] ! (1 - 1)))"
  proof -
    have P: "([ix_G, ix_B ?t1] \<noteq> [] \<longrightarrow> prev (operation ([ix_G, ix_B ?t1] ! 0)) = None)
         \<and> (\<forall>i. 1 \<le> i \<and> i < length [ix_G, ix_B ?t1]
               \<longrightarrow> prev (operation ([ix_G, ix_B ?t1] ! i))
                   = Some (cid ([ix_G, ix_B ?t1] ! (i - 1))))"
      using S [THEN conjunct2, THEN conjunct1] can f by blast
    have l: "(1::nat) \<le> 1 \<and> 1 < length [ix_G, ix_B ?t1]" by simp
    from P have "prev (operation ([ix_G, ix_B ?t1] ! 0)) = None" by blast
    moreover from P l have "prev (operation ([ix_G, ix_B ?t1] ! 1))
        = Some (cid ([ix_G, ix_B ?t1] ! (1 - 1)))" by blast
    ultimately show ?thesis by blast
  qed
  from can ch b 1 f 2 show ?thesis by blast
qed

end
